theory Spec2Isabelle
  imports Main
begin

section \<open>Python values\<close>

text \<open>
  The program works on decoded JSON: every post, category and tag is whatever
  \<^verbatim>\<open>response.json()\<close> returned. A JSON object is kept as the list of its members in
  document order; as in Python's decoder a later member with the same key replaces the
  value of an earlier one while the key keeps its first position. Strings are sequences
  of code points below 256. JSON numbers with a fraction or an exponent are outside the
  model.
\<close>

datatype json =
    JNull
  | JBool bool
  | JInt int
  | JStr string
  | JArr "json list"
  | JObj "(string \<times> json) list"

text \<open>The exceptions of the interpreter that the program can meet and does not catch
  by name. The text of such an exception is not modelled.\<close>

datatype py_exn = ValueError | TypeError | AttributeError | KeyError | IndexError

subsection \<open>Truth value, dictionaries, iteration\<close>

fun truthy :: "json \<Rightarrow> bool" where
  "truthy JNull = False"
| "truthy (JBool b) = b"
| "truthy (JInt n) = (n \<noteq> 0)"
| "truthy (JStr s) = (s \<noteq> [])"
| "truthy (JArr xs) = (xs \<noteq> [])"
| "truthy (JObj kvs) = (kvs \<noteq> [])"

definition obj_lookup :: "(string \<times> 'v) list \<Rightarrow> string \<Rightarrow> 'v option" where
  "obj_lookup kvs k = map_of (rev kvs) k"

definition obj_keys :: "(string \<times> 'v) list \<Rightarrow> string list" where
  "obj_keys kvs = rev (remdups (rev (map fst kvs)))"

text \<open>\<^verbatim>\<open>x.get(key, default)\<close>: only a dict has the method.\<close>

fun py_get :: "json \<Rightarrow> string \<Rightarrow> json \<Rightarrow> py_exn + json" where
  "py_get (JObj kvs) k d = Inr (case obj_lookup kvs k of None \<Rightarrow> d | Some v \<Rightarrow> v)"
| "py_get JNull k d = Inl AttributeError"
| "py_get (JBool b) k d = Inl AttributeError"
| "py_get (JInt n) k d = Inl AttributeError"
| "py_get (JStr s) k d = Inl AttributeError"
| "py_get (JArr xs) k d = Inl AttributeError"

text \<open>\<^verbatim>\<open>x[key]\<close> with a string key.\<close>

fun py_getitem_str :: "json \<Rightarrow> string \<Rightarrow> py_exn + json" where
  "py_getitem_str (JObj kvs) k =
     (case obj_lookup kvs k of None \<Rightarrow> Inl KeyError | Some v \<Rightarrow> Inr v)"
| "py_getitem_str JNull k = Inl TypeError"
| "py_getitem_str (JBool b) k = Inl TypeError"
| "py_getitem_str (JInt n) k = Inl TypeError"
| "py_getitem_str (JStr s) k = Inl TypeError"
| "py_getitem_str (JArr xs) k = Inl TypeError"

text \<open>\<^verbatim>\<open>x[0]\<close>: the first element of a list, the first character of a string; the
  keys of a decoded JSON object are strings, so \<^verbatim>\<open>0\<close> is never among them.\<close>

fun py_getitem_0 :: "json \<Rightarrow> py_exn + json" where
  "py_getitem_0 (JArr []) = Inl IndexError"
| "py_getitem_0 (JArr (x # xs)) = Inr x"
| "py_getitem_0 (JStr []) = Inl IndexError"
| "py_getitem_0 (JStr (c # cs)) = Inr (JStr [c])"
| "py_getitem_0 (JObj kvs) = Inl KeyError"
| "py_getitem_0 JNull = Inl TypeError"
| "py_getitem_0 (JBool b) = Inl TypeError"
| "py_getitem_0 (JInt n) = Inl TypeError"

text \<open>The elements a \<^verbatim>\<open>for\<close> loop or \<^verbatim>\<open>list.extend\<close> draws from a value: the elements
  of a list, the characters of a string, the keys of a dict.\<close>

fun py_iter :: "json \<Rightarrow> py_exn + json list" where
  "py_iter (JArr xs) = Inr xs"
| "py_iter (JStr s) = Inr (map (\<lambda>c. JStr [c]) s)"
| "py_iter (JObj kvs) = Inr (map JStr (obj_keys kvs))"
| "py_iter JNull = Inl TypeError"
| "py_iter (JBool b) = Inl TypeError"
| "py_iter (JInt n) = Inl TypeError"

text \<open>\<^verbatim>\<open>d[key] = value\<close> on a dict kept in insertion order.\<close>

fun dict_set :: "(string \<times> json) list \<Rightarrow> string \<Rightarrow> json \<Rightarrow> (string \<times> json) list" where
  "dict_set [] k v = [(k, v)]"
| "dict_set ((k', v') # kvs) k v =
     (if k' = k then (k, v) # kvs else (k', v') # dict_set kvs k v)"

subsection \<open>Integers and text\<close>

definition is_digit :: "char \<Rightarrow> bool" where
  "is_digit c = (48 \<le> (of_char c :: nat) \<and> (of_char c :: nat) \<le> 57)"

definition digit_val :: "char \<Rightarrow> int" where
  "digit_val c = int (of_char c) - 48"

text \<open>The white space \<^verbatim>\<open>int()\<close> strips from both ends of a string: code points
  9 to 13, 32, 133 and 160. The separators 28 to 31 are not among them.\<close>

definition is_space :: "char \<Rightarrow> bool" where
  "is_space c = (let n = (of_char c :: nat) in
     (9 \<le> n \<and> n \<le> 13) \<or> n = 32 \<or> n = 133 \<or> n = 160)"

text \<open>After the first digit: digits, each optionally preceded by one underscore.\<close>

fun int_digits :: "int \<Rightarrow> string \<Rightarrow> int option" where
  "int_digits acc [] = Some acc"
| "int_digits acc [c] = (if is_digit c then Some (acc * 10 + digit_val c) else None)"
| "int_digits acc (c # d # cs) =
     (if is_digit c then int_digits (acc * 10 + digit_val c) (d # cs)
      else if c = CHR ''_'' \<and> is_digit d then int_digits (acc * 10 + digit_val d) cs
      else None)"

definition int_unsigned :: "string \<Rightarrow> int option" where
  "int_unsigned s =
     (case s of [] \<Rightarrow> None
      | c # cs \<Rightarrow> if is_digit c then int_digits (digit_val c) cs else None)"

text \<open>The most digits \<^verbatim>\<open>int()\<close> converts (the default of the interpreter, 3.11 and
  later); leading zeros count, underscores and the sign do not.\<close>

definition max_str_digits :: nat where
  "max_str_digits = 4300"

text \<open>\<^verbatim>\<open>int(s)\<close> for a string, base ten: \<^verbatim>\<open>ValueError\<close> for a string that is not a
  literal and for a literal of more than \<open>max_str_digits\<close> digits.\<close>

definition py_int :: "string \<Rightarrow> py_exn + int" where
  "py_int s =
     (let t = rev (dropWhile is_space (rev (dropWhile is_space s)));
          r = (case t of
                 [] \<Rightarrow> None
               | c # cs \<Rightarrow>
                   if c = CHR ''-'' then map_option uminus (int_unsigned cs)
                   else if c = CHR ''+'' then int_unsigned cs
                   else int_unsigned t)
      in case r of
           None \<Rightarrow> Inl ValueError
         | Some n \<Rightarrow>
             if length (filter is_digit t) > max_str_digits then Inl ValueError else Inr n)"

definition digit_char :: "nat \<Rightarrow> char" where
  "digit_char n = ''0123456789'' ! (n mod 10)"

fun nat_str :: "nat \<Rightarrow> string" where
  "nat_str n =
     (if n < 10 then [digit_char n]
      else nat_str (n div 10) @ [digit_char (n mod 10)])"

declare nat_str.simps [simp del]

text \<open>\<^verbatim>\<open>str(n)\<close> for an integer.\<close>

definition int_str :: "int \<Rightarrow> string" where
  "int_str i = (if i < 0 then CHR ''-'' # nat_str (nat (- i)) else nat_str (nat i))"

text \<open>\<^verbatim>\<open>sep.join(xs)\<close> on strings.\<close>

fun join_strs :: "string \<Rightarrow> string list \<Rightarrow> string" where
  "join_strs sep [] = []"
| "join_strs sep [x] = x"
| "join_strs sep (x # y # ys) = x @ sep @ join_strs sep (y # ys)"

definition hex_char :: "nat \<Rightarrow> char" where
  "hex_char n = ''0123456789abcdef'' ! (n mod 16)"

text \<open>\<^verbatim>\<open>repr(s)\<close> of a string: double quotes when the string has a single quote and no
  double quote, single quotes otherwise; the quote in use and the backslash are escaped,
  tab, newline and carriage return are written with their letter, every other code point
  that is not printable as \<^verbatim>\<open>\xNN\<close>.\<close>

definition repr_quote :: "string \<Rightarrow> char" where
  "repr_quote s = (if CHR 0x27 \<in> set s \<and> CHR 0x22 \<notin> set s then CHR 0x22 else CHR 0x27)"

definition repr_char :: "char \<Rightarrow> char \<Rightarrow> string" where
  "repr_char q c =
     (let n = (of_char c :: nat) in
      if c = q \<or> c = CHR 0x5C then [CHR 0x5C, c]
      else if n = 9 then [CHR 0x5C, CHR ''t'']
      else if n = 10 then [CHR 0x5C, CHR ''n'']
      else if n = 13 then [CHR 0x5C, CHR ''r'']
      else if n < 32 \<or> n = 127 \<or> (128 \<le> n \<and> n \<le> 160) \<or> n = 173
        then [CHR 0x5C, CHR ''x'', hex_char (n div 16), hex_char (n mod 16)]
      else [c])"

definition str_repr :: "string \<Rightarrow> string" where
  "str_repr s = (let q = repr_quote s in q # concat (map (repr_char q) s) @ [q])"

text \<open>The members a dict built from the pairs holds, in its order.\<close>

definition obj_items :: "(string \<times> 'v) list \<Rightarrow> (string \<times> 'v) list" where
  "obj_items kvs = map (\<lambda>k. (k, the (obj_lookup kvs k))) (obj_keys kvs)"

fun py_repr :: "json \<Rightarrow> string" where
  "py_repr JNull = ''None''"
| "py_repr (JBool b) = (if b then ''True'' else ''False'')"
| "py_repr (JInt n) = int_str n"
| "py_repr (JStr s) = str_repr s"
| "py_repr (JArr xs) = ''['' @ join_strs '', '' (map py_repr xs) @ '']''"
| "py_repr (JObj kvs) =
     ''{'' @ join_strs '', ''
        (map (\<lambda>(k, r). str_repr k @ '': '' @ r)
           (obj_items (map (\<lambda>(k, v). (k, py_repr v)) kvs))) @ ''}''"

text \<open>What an f-string puts for a value: \<^verbatim>\<open>str(x)\<close>.\<close>

fun py_str :: "json \<Rightarrow> string" where
  "py_str (JStr s) = s"
| "py_str JNull = py_repr JNull"
| "py_str (JBool b) = py_repr (JBool b)"
| "py_str (JInt n) = py_repr (JInt n)"
| "py_str (JArr xs) = py_repr (JArr xs)"
| "py_str (JObj kvs) = py_repr (JObj kvs)"

subsection \<open>Sequencing, hashing, membership\<close>

text \<open>A list comprehension whose element expression may raise: the first exception
  ends it.\<close>

fun map_exn :: "('a \<Rightarrow> py_exn + 'b) \<Rightarrow> 'a list \<Rightarrow> py_exn + 'b list" where
  "map_exn f [] = Inr []"
| "map_exn f (x # xs) =
     (case f x of
        Inl e \<Rightarrow> Inl e
      | Inr y \<Rightarrow> (case map_exn f xs of Inl e \<Rightarrow> Inl e | Inr ys \<Rightarrow> Inr (y # ys)))"

text \<open>A value used as a dict key: lists and dicts are unhashable, and \<^verbatim>\<open>True\<close> and
  \<^verbatim>\<open>False\<close> are the same keys as \<^verbatim>\<open>1\<close> and \<^verbatim>\<open>0\<close>.\<close>

fun hash_key :: "json \<Rightarrow> py_exn + json" where
  "hash_key (JArr xs) = Inl TypeError"
| "hash_key (JObj kvs) = Inl TypeError"
| "hash_key (JBool b) = Inr (JInt (if b then 1 else 0))"
| "hash_key JNull = Inr JNull"
| "hash_key (JInt n) = Inr (JInt n)"
| "hash_key (JStr s) = Inr (JStr s)"

text \<open>\<^verbatim>\<open>d.get(key, default)\<close> on a dict with arbitrary keys.\<close>

definition dict_get :: "(json \<rightharpoonup> json) \<Rightarrow> json \<Rightarrow> json \<Rightarrow> py_exn + json" where
  "dict_get d k dflt =
     (case hash_key k of
        Inl e \<Rightarrow> Inl e
      | Inr hk \<Rightarrow> Inr (case d hk of None \<Rightarrow> dflt | Some v \<Rightarrow> v))"

fun is_substring :: "string \<Rightarrow> string \<Rightarrow> bool" where
  "is_substring p [] = (p = [])"
| "is_substring p (c # cs) = (take (length p) (c # cs) = p \<or> is_substring p cs)"

text \<open>\<^verbatim>\<open>key in x\<close> for a string \<^verbatim>\<open>key\<close>.\<close>

fun py_contains :: "string \<Rightarrow> json \<Rightarrow> py_exn + bool" where
  "py_contains k (JObj kvs) = Inr (k \<in> set (obj_keys kvs))"
| "py_contains k (JArr xs) = Inr (JStr k \<in> set xs)"
| "py_contains k (JStr s) = Inr (is_substring k s)"
| "py_contains k JNull = Inl TypeError"
| "py_contains k (JBool b) = Inl TypeError"
| "py_contains k (JInt n) = Inl TypeError"

text \<open>\<^verbatim>\<open>sep.join(xs)\<close> on values: every one has to be a string.\<close>

fun as_str :: "json \<Rightarrow> py_exn + string" where
  "as_str (JStr s) = Inr s"
| "as_str JNull = Inl TypeError"
| "as_str (JBool b) = Inl TypeError"
| "as_str (JInt n) = Inl TypeError"
| "as_str (JArr xs) = Inl TypeError"
| "as_str (JObj kvs) = Inl TypeError"

definition py_join :: "string \<Rightarrow> json list \<Rightarrow> py_exn + string" where
  "py_join sep xs =
     (case map_exn as_str xs of Inl e \<Rightarrow> Inl e | Inr ss \<Rightarrow> Inr (join_strs sep ss))"

section \<open>The HTTP world\<close>

text \<open>
  A response as far as the program reads it: the status, the value of the
  \<^verbatim>\<open>X-WP-TotalPages\<close> header when the header is there, and what \<^verbatim>\<open>response.json()\<close>
  gives: the decoded body, or \<open>Inl\<close> the text of the \<^verbatim>\<open>JSONDecodeError\<close> it raises when
  the body is not JSON. That error is a \<^verbatim>\<open>RequestException\<close> (requests 2.27 and later).
\<close>

record response =
  status_code :: int
  total_pages_header :: "string option"
  body :: "string + json"

text \<open>A GET either returns a response or raises a
  \<^verbatim>\<open>requests.exceptions.RequestException\<close>, whose text is carried along.\<close>

datatype outcome = Response response | RequestException string

text \<open>\<open>Plain\<close> is \<^verbatim>\<open>requests.get\<close>; \<open>Session\<close> is \<^verbatim>\<open>session.get\<close> on the session that
  \<^verbatim>\<open>main\<close> creates and mounts the retrying adapter on.\<close>

datatype channel = Plain | Session

record request =
  via :: channel
  url :: string
  params :: "(string \<times> json) list"

datatype ui_event =
    StatusText string
  | StError string
  | StErrorExn py_exn
  | StWarning string
  | StSuccess string
  | Progress nat nat
  | ProgressEmpty
  | Dataframe "(string \<times> json) list list"
  | DownloadButton "(string \<times> json) list list"

text \<open>
  The world outside the program answers the \<open>k\<close>-th GET of a run, which may depend on
  the request, with an outcome. The state records how many GETs have been answered, the
  requests issued and what was shown to the user.
\<close>

type_synonym server = "nat \<Rightarrow> request \<Rightarrow> outcome"

record world =
  cursor :: nat
  sent :: "request list"
  ui :: "ui_event list"

definition http_get :: "server \<Rightarrow> request \<Rightarrow> world \<Rightarrow> outcome \<times> world" where
  "http_get srv rq s =
     (srv (cursor s) rq, s\<lparr>cursor := Suc (cursor s), sent := sent s @ [rq]\<rparr>)"

definition show_ui :: "ui_event \<Rightarrow> world \<Rightarrow> world" where
  "show_ui e s = s\<lparr>ui := ui s @ [e]\<rparr>"

section \<open>The paginated fetcher\<close>

text \<open>\<^verbatim>\<open>int(response.headers.get('X-WP-TotalPages', 1))\<close>\<close>

definition total_pages_of :: "response \<Rightarrow> py_exn + int" where
  "total_pages_of r =
     (case total_pages_header r of None \<Rightarrow> Inr 1 | Some h \<Rightarrow> py_int h)"

definition page_request :: "string \<Rightarrow> (string \<times> json) list \<Rightarrow> int \<Rightarrow> request" where
  "page_request base_url ps page =
     \<lparr>via = Session, url = base_url, params = dict_set ps ''page'' (JInt page)\<rparr>"

text \<open>
  The \<^verbatim>\<open>while True\<close> loop of \<^verbatim>\<open>fetch_all_pages\<close>, from the state at the top of an
  iteration. \<open>None\<close> is a loop that never ends. \<open>Inl\<close> is an exception that leaves the
  function: the handler catches request exceptions only, among them the failure of
  \<^verbatim>\<open>response.json()\<close> to decode the body.
\<close>

partial_function (option) fetch_loop ::
  "server \<Rightarrow> string \<Rightarrow> (string \<times> json) list \<Rightarrow> string \<Rightarrow> json list \<Rightarrow> int \<Rightarrow> world
     \<Rightarrow> ((py_exn + json list) \<times> world) option"
where
  "fetch_loop srv base_url ps item_name all_items page s =
     (case http_get srv (page_request base_url ps page) s of
        (RequestException e, s1) \<Rightarrow>
          Some (Inr all_items,
            show_ui (StError (''An error occurred while fetching '' @ item_name @ '': '' @ e)) s1)
      | (Response r, s1) \<Rightarrow>
          if status_code r = 200 then
            (case body r of
               Inl e \<Rightarrow>
                 Some (Inr all_items,
                   show_ui (StError (''An error occurred while fetching '' @ item_name @ '': '' @ e)) s1)
             | Inr j \<Rightarrow>
                 (case py_iter j of
                    Inl x \<Rightarrow> Some (Inl x, s1)
                  | Inr items \<Rightarrow>
                      (case total_pages_of r of
                         Inl x \<Rightarrow> Some (Inl x, s1)
                       | Inr total_pages \<Rightarrow>
                           let s2 = show_ui (StatusText (''Fetching '' @ item_name @ '': Page ''
                                      @ int_str page @ ''/'' @ int_str total_pages)) s1
                           in if page \<ge> total_pages then Some (Inr (all_items @ items), s2)
                              else fetch_loop srv base_url (dict_set ps ''page'' (JInt page))
                                     item_name (all_items @ items) (page + 1) s2)))
          else
            Some (Inr all_items,
              show_ui (StError (''Error '' @ int_str (status_code r) @ '' while fetching ''
                @ item_name @ '' page '' @ int_str page)) s1))"

text \<open>The loop can be run on concrete answers.\<close>

declare fetch_loop.simps [code]

definition fetch_all_pages ::
  "server \<Rightarrow> string \<Rightarrow> (string \<times> json) list \<Rightarrow> string \<Rightarrow> world
     \<Rightarrow> ((py_exn + json list) \<times> world) option"
where
  "fetch_all_pages srv base_url ps item_name s = fetch_loop srv base_url ps item_name [] 1 s"

section \<open>The resource fetchers\<close>

definition post_fields :: "bool \<Rightarrow> bool \<Rightarrow> string list" where
  "post_fields categories_option tags_option =
     [''link'', ''title'', ''content'', ''featured_media'']
       @ (if categories_option then [''categories''] else [])
       @ (if tags_option then [''tags''] else [])"

definition posts_params :: "bool \<Rightarrow> bool \<Rightarrow> (string \<times> json) list" where
  "posts_params categories_option tags_option =
     [(''status'', JStr ''publish''),
      (''per_page'', JInt 100),
      (''_fields'', JStr (join_strs '','' (post_fields categories_option tags_option))),
      (''_embed'', JStr ''wp:featuredmedia'')]"

definition fetch_all_published_posts ::
  "server \<Rightarrow> string \<Rightarrow> bool \<Rightarrow> bool \<Rightarrow> world \<Rightarrow> ((py_exn + json list) \<times> world) option"
where
  "fetch_all_published_posts srv base_site_url categories_option tags_option s =
     fetch_all_pages srv (base_site_url @ ''/wp-json/wp/v2/posts'')
       (posts_params categories_option tags_option) ''articles'' s"

text \<open>The comprehension \<^verbatim>\<open>{x['id']: x['name'] for x in items}\<close>: key, then value, then
  the store, which hashes the key; a later item with the same key replaces the name.\<close>

fun name_dict :: "(json \<rightharpoonup> json) \<Rightarrow> json list \<Rightarrow> py_exn + (json \<rightharpoonup> json)" where
  "name_dict d [] = Inr d"
| "name_dict d (x # xs) =
     (case py_getitem_str x ''id'' of
        Inl e \<Rightarrow> Inl e
      | Inr k \<Rightarrow>
          (case py_getitem_str x ''name'' of
             Inl e \<Rightarrow> Inl e
           | Inr v \<Rightarrow>
               (case hash_key k of
                  Inl e \<Rightarrow> Inl e
                | Inr hk \<Rightarrow> name_dict (d(hk \<mapsto> v)) xs)))"

text \<open>\<^verbatim>\<open>fetch_all_categories\<close> and \<^verbatim>\<open>fetch_all_tags\<close> are the same function up to the
  name of the resource.\<close>

definition fetch_all_named ::
  "string \<Rightarrow> server \<Rightarrow> string \<Rightarrow> world \<Rightarrow> ((py_exn + (json \<rightharpoonup> json)) \<times> world) option"
where
  "fetch_all_named resource srv base_site_url s =
     (case fetch_all_pages srv (base_site_url @ ''/wp-json/wp/v2/'' @ resource)
             [(''per_page'', JInt 100)] resource s of
        None \<Rightarrow> None
      | Some (Inl e, s1) \<Rightarrow> Some (Inl e, s1)
      | Some (Inr items, s1) \<Rightarrow>
          (case name_dict Map.empty items of
             Inl e \<Rightarrow> Some (Inl e, s1)
           | Inr d \<Rightarrow>
               Some (Inr d, show_ui (StatusText (''All '' @ resource @ '' have been fetched.'')) s1)))"

definition fetch_all_categories ::
  "server \<Rightarrow> string \<Rightarrow> world \<Rightarrow> ((py_exn + (json \<rightharpoonup> json)) \<times> world) option"
where
  "fetch_all_categories = fetch_all_named ''categories''"

definition fetch_all_tags ::
  "server \<Rightarrow> string \<Rightarrow> world \<Rightarrow> ((py_exn + (json \<rightharpoonup> json)) \<times> world) option"
where
  "fetch_all_tags = fetch_all_named ''tags''"

section \<open>The media resolver\<close>

text \<open>\<^verbatim>\<open>post.get('_embedded', {}).get('wp:featuredmedia', [])\<close>\<close>

definition embedded_media_of :: "json \<Rightarrow> py_exn + json" where
  "embedded_media_of post =
     (case py_get post ''_embedded'' (JObj []) of
        Inl e \<Rightarrow> Inl e
      | Inr emb \<Rightarrow> py_get emb ''wp:featuredmedia'' (JArr []))"

text \<open>\<^verbatim>\<open>embedded_media and 'source_url' in embedded_media[0]\<close>\<close>

definition has_source_url :: "json \<Rightarrow> py_exn + bool" where
  "has_source_url embedded_media =
     (if truthy embedded_media then
        (case py_getitem_0 embedded_media of
           Inl e \<Rightarrow> Inl e
         | Inr first \<Rightarrow> py_contains ''source_url'' first)
      else Inr False)"

definition media_request :: "string \<Rightarrow> json \<Rightarrow> request" where
  "media_request base_site_url media_id =
     \<lparr>via = Session,
      url = base_site_url @ ''/wp-json/wp/v2/media/'' @ py_str media_id,
      params = []\<rparr>"

text \<open>The fallback: one GET of the media endpoint. A request exception, also the one
  of \<^verbatim>\<open>response.json()\<close>, is caught and shown as a warning; any other status than 200
  is passed over in silence.\<close>

definition fetch_media :: "server \<Rightarrow> string \<Rightarrow> json \<Rightarrow> world \<Rightarrow> (py_exn + json) \<times> world" where
  "fetch_media srv base_site_url media_id s =
     (case http_get srv (media_request base_site_url media_id) s of
        (RequestException e, s1) \<Rightarrow>
          (Inr (JStr []),
           show_ui (StWarning (''Failed to fetch media ID '' @ py_str media_id @ '': '' @ e)) s1)
      | (Response r, s1) \<Rightarrow>
          if status_code r = 200 then
            (case body r of
               Inl e \<Rightarrow>
                 (Inr (JStr []),
                  show_ui (StWarning (''Failed to fetch media ID '' @ py_str media_id @ '': '' @ e)) s1)
             | Inr media_data \<Rightarrow> (py_get media_data ''source_url'' (JStr []), s1))
          else (Inr (JStr []), s1))"

definition get_image_url :: "server \<Rightarrow> json \<Rightarrow> string \<Rightarrow> world \<Rightarrow> (py_exn + json) \<times> world" where
  "get_image_url srv post base_site_url s =
     (case py_get post ''featured_media'' JNull of
        Inl e \<Rightarrow> (Inl e, s)
      | Inr media_id \<Rightarrow>
          if truthy media_id then
            (case embedded_media_of post of
               Inl e \<Rightarrow> (Inl e, s)
             | Inr embedded_media \<Rightarrow>
                 (case has_source_url embedded_media of
                    Inl e \<Rightarrow> (Inl e, s)
                  | Inr True \<Rightarrow>
                      (case py_getitem_0 embedded_media of
                         Inl e \<Rightarrow> (Inl e, s)
                       | Inr first \<Rightarrow> (py_getitem_str first ''source_url'', s))
                  | Inr False \<Rightarrow> fetch_media srv base_site_url media_id s))
          else (Inr (JStr []), s))"

section \<open>The row builder\<close>

text \<open>The block of \<^verbatim>\<open>main\<close> that turns the identifiers a post lists under \<open>key\<close> into
  names; it is written twice there, for categories and for tags.\<close>

definition joined_names :: "(json \<rightharpoonup> json) \<Rightarrow> json \<Rightarrow> string \<Rightarrow> py_exn + string" where
  "joined_names d post key =
     (case py_get post key (JArr []) of
        Inl e \<Rightarrow> Inl e
      | Inr ids \<Rightarrow>
          if truthy ids then
            (case py_iter ids of
               Inl e \<Rightarrow> Inl e
             | Inr id_list \<Rightarrow>
                 (case map_exn (\<lambda>i. dict_get d i (JStr ''Unknown'')) id_list of
                    Inl e \<Rightarrow> Inl e
                  | Inr names \<Rightarrow> py_join '', '' names))
          else py_join '', '' [])"

type_synonym row = "(string \<times> json) list"

text \<open>\<^verbatim>\<open>post.get(key, {}).get('rendered', '')\<close>\<close>

definition rendered :: "json \<Rightarrow> string \<Rightarrow> py_exn + json" where
  "rendered post key =
     (case py_get post key (JObj []) of
        Inl e \<Rightarrow> Inl e
      | Inr x \<Rightarrow> py_get x ''rendered'' (JStr []))"

text \<open>The optional columns, added to \<^verbatim>\<open>post_data\<close> after the four fixed ones.\<close>

definition add_names ::
  "bool \<Rightarrow> string \<Rightarrow> (json \<rightharpoonup> json) \<Rightarrow> json \<Rightarrow> row \<Rightarrow> py_exn + row" where
  "add_names option key d post post_data =
     (if option then
        (case joined_names d post key of
           Inl e \<Rightarrow> Inl e
         | Inr names \<Rightarrow> Inr (dict_set post_data key (JStr names)))
      else Inr post_data)"

text \<open>One turn of the loop over the posts.\<close>

definition build_row ::
  "server \<Rightarrow> string \<Rightarrow> bool \<Rightarrow> bool \<Rightarrow> (json \<rightharpoonup> json) \<Rightarrow> (json \<rightharpoonup> json) \<Rightarrow> nat \<Rightarrow> nat
     \<Rightarrow> json \<Rightarrow> world \<Rightarrow> (py_exn + row) \<times> world"
where
  "build_row srv base_site_url categories_option tags_option category_dict tag_dict
       total_posts index post s =
     (let s1 = show_ui (Progress index total_posts)
                 (show_ui (StatusText (''Processing article '' @ nat_str index @ ''/''
                    @ nat_str total_posts)) s)
      in case py_get post ''link'' (JStr []) of
           Inl e \<Rightarrow> (Inl e, s1)
         | Inr link \<Rightarrow>
             (case rendered post ''title'' of
                Inl e \<Rightarrow> (Inl e, s1)
              | Inr title \<Rightarrow>
                  (case rendered post ''content'' of
                     Inl e \<Rightarrow> (Inl e, s1)
                   | Inr content \<Rightarrow>
                       (case get_image_url srv post base_site_url s1 of
                          (Inl e, s2) \<Rightarrow> (Inl e, s2)
                        | (Inr image_url, s2) \<Rightarrow>
                            (case add_names categories_option ''categories'' category_dict post
                                    [(''url'', link), (''title'', title), (''content'', content),
                                     (''image_url'', image_url)] of
                               Inl e \<Rightarrow> (Inl e, s2)
                             | Inr post_data \<Rightarrow>
                                 (add_names tags_option ''tags'' tag_dict post post_data, s2))))))"

text \<open>The loop \<^verbatim>\<open>for index, post in enumerate(posts, start=1)\<close>; an exception leaves it
  with the rows built so far lost.\<close>

fun build_rows ::
  "server \<Rightarrow> string \<Rightarrow> bool \<Rightarrow> bool \<Rightarrow> (json \<rightharpoonup> json) \<Rightarrow> (json \<rightharpoonup> json) \<Rightarrow> nat \<Rightarrow> nat
     \<Rightarrow> row list \<Rightarrow> json list \<Rightarrow> world \<Rightarrow> (py_exn + row list) \<times> world"
where
  "build_rows srv base_site_url copt topt cd td total_posts index csv_data [] s =
     (Inr csv_data, s)"
| "build_rows srv base_site_url copt topt cd td total_posts index csv_data (post # posts) s =
     (case build_row srv base_site_url copt topt cd td total_posts index post s of
        (Inl e, s1) \<Rightarrow> (Inl e, s1)
      | (Inr post_data, s1) \<Rightarrow>
          build_rows srv base_site_url copt topt cd td total_posts (Suc index)
            (csv_data @ [post_data]) posts s1)"

section \<open>The site validator\<close>

text \<open>
  What \<^verbatim>\<open>urlparse\<close> of the standard library gives for a string, as far as the program
  reads it. The parser is taken as a parameter \<open>urlparse\<close> of the functions below; it
  raises \<^verbatim>\<open>ValueError\<close> on some strings, which is \<open>Inl\<close>.
\<close>

record parsed_url =
  scheme :: string
  netloc :: string

type_synonym url_parser = "string \<Rightarrow> py_exn + parsed_url"

definition api_request :: "parsed_url \<Rightarrow> request" where
  "api_request p = \<lparr>via = Plain, url = scheme p @ ''://'' @ netloc p @ ''/wp-json/'', params = []\<rparr>"

definition validate_wordpress_site ::
  "url_parser \<Rightarrow> server \<Rightarrow> string \<Rightarrow> world \<Rightarrow> (py_exn + bool \<times> string) \<times> world"
where
  "validate_wordpress_site urlparse srv u s =
     (case urlparse u of
        Inl e \<Rightarrow> (Inl e, s)
      | Inr p \<Rightarrow>
          if scheme p = [] \<or> netloc p = [] then
            (Inr (False, ''Invalid URL format. Please include the scheme (http:// or https://).''), s)
          else
            (case http_get srv (api_request p) s of
               (Response r, s1) \<Rightarrow>
                 if status_code r = 200 then (Inr (True, []), s1)
                 else (Inr (False, ''REST API returned status code '' @ int_str (status_code r) @ ''.''), s1)
             | (RequestException e, s1) \<Rightarrow>
                 (Inr (False, ''Could not connect to the REST API: '' @ e), s1)))"

section \<open>The run\<close>

text \<open>How a run of \<^verbatim>\<open>main\<close> ends once the button is pressed: an exception of
  \<^verbatim>\<open>validate_wordpress_site\<close> is outside the \<^verbatim>\<open>try\<close> and leaves \<^verbatim>\<open>main\<close>; an exception
  inside the \<^verbatim>\<open>try\<close> is caught by \<^verbatim>\<open>except Exception\<close> and ends the run with an error
  message and no rows.\<close>

datatype run_result =
    Uncaught py_exn
  | ValidationFailed string
  | NoArticles
  | Aborted py_exn
  | Completed "row list"

text \<open>The part of \<^verbatim>\<open>main\<close> after the posts are fetched and found not empty.\<close>

definition process_posts ::
  "server \<Rightarrow> string \<Rightarrow> bool \<Rightarrow> bool \<Rightarrow> json list \<Rightarrow> world \<Rightarrow> (run_result \<times> world) option"
where
  "process_posts srv base_site_url categories_option tags_option posts s =
     (let s1 = show_ui (StSuccess (''Total articles fetched: '' @ nat_str (length posts))) s
      in case (if categories_option then fetch_all_categories srv base_site_url s1
               else Some (Inr Map.empty, s1)) of
           None \<Rightarrow> None
         | Some (Inl e, s2) \<Rightarrow> Some (Aborted e, show_ui (StErrorExn e) s2)
         | Some (Inr category_dict, s2) \<Rightarrow>
             (case (if tags_option then fetch_all_tags srv base_site_url s2
                    else Some (Inr Map.empty, s2)) of
                None \<Rightarrow> None
              | Some (Inl e, s3) \<Rightarrow> Some (Aborted e, show_ui (StErrorExn e) s3)
              | Some (Inr tag_dict, s3) \<Rightarrow>
                  (case build_rows srv base_site_url categories_option tags_option
                          category_dict tag_dict (length posts) 1 []
                          posts (show_ui (Progress 0 (length posts)) s3) of
                     (Inl e, s4) \<Rightarrow> Some (Aborted e, show_ui (StErrorExn e) s4)
                   | (Inr csv_data, s4) \<Rightarrow>
                       Some (Completed csv_data,
                         show_ui (DownloadButton csv_data)
                           (show_ui (Dataframe csv_data)
                              (show_ui (StatusText ''Processing completed.'')
                                 (show_ui ProgressEmpty s4)))))))"

definition main ::
  "url_parser \<Rightarrow> server \<Rightarrow> string \<Rightarrow> bool \<Rightarrow> bool \<Rightarrow> world \<Rightarrow> (run_result \<times> world) option"
where
  "main urlparse srv base_site_url categories_option tags_option s =
     (case validate_wordpress_site urlparse srv base_site_url s of
        (Inl e, s1) \<Rightarrow> Some (Uncaught e, s1)
      | (Inr (is_valid_url, error_message), s1) \<Rightarrow>
          if \<not> is_valid_url then
            Some (ValidationFailed error_message,
                  show_ui (StError (''URL Validation Error: '' @ error_message)) s1)
          else
            (case fetch_all_published_posts srv base_site_url categories_option tags_option s1 of
               None \<Rightarrow> None
             | Some (Inl e, s2) \<Rightarrow> Some (Aborted e, show_ui (StErrorExn e) s2)
             | Some (Inr posts, s2) \<Rightarrow>
                 if posts = [] then Some (NoArticles, show_ui (StWarning ''No articles found.'') s2)
                 else process_posts srv base_site_url categories_option tags_option posts s2))"

section \<open>A sample site\<close>

text \<open>Concrete answers and records on which the functions are run: a server that
  replays a fixed list of answers, whatever is requested, and refuses every further
  connection.\<close>

definition world0 :: world where
  "world0 = \<lparr>cursor = 0, sent = [], ui = []\<rparr>"

definition ok :: "string option \<Rightarrow> json \<Rightarrow> outcome" where
  "ok h j = Response \<lparr>status_code = 200, total_pages_header = h, body = Inr j\<rparr>"

definition status_only :: "int \<Rightarrow> outcome" where
  "status_only c = Response \<lparr>status_code = c, total_pages_header = None, body = Inl ''no JSON''\<rparr>"

definition replay :: "outcome list \<Rightarrow> server" where
  "replay outs k rq =
     (if k < length outs then outs ! k else RequestException ''connection refused'')"

definition post_a :: json where
  "post_a = JObj [(''link'', JStr ''https://example.com/a''),
     (''title'', JObj [(''rendered'', JStr ''A'')]),
     (''content'', JObj [(''rendered'', JStr ''<p>a</p>'')]),
     (''featured_media'', JInt 7),
     (''categories'', JArr [JInt 1, JInt 5]),
     (''_embedded'', JObj [(''wp:featuredmedia'',
        JArr [JObj [(''source_url'', JStr ''https://example.com/a.png'')]])])]"

definition post_b :: json where
  "post_b = JObj [(''link'', JStr ''https://example.com/b''),
     (''title'', JObj [(''rendered'', JStr ''B'')]),
     (''content'', JObj [(''rendered'', JStr ''<p>b</p>'')]),
     (''featured_media'', JInt 0),
     (''categories'', JArr [])]"

definition post_c :: json where
  "post_c = JObj [(''link'', JStr ''https://example.com/c''),
     (''title'', JObj [(''rendered'', JStr ''C'')]),
     (''content'', JObj [(''rendered'', JStr ''<p>c</p>'')]),
     (''featured_media'', JInt 9),
     (''categories'', JArr [JInt 2])]"

definition sample_parse :: url_parser where
  "sample_parse u =
     (if u = ''https://example.com'' then Inr \<lparr>scheme = ''https'', netloc = ''example.com''\<rparr>
      else Inr \<lparr>scheme = [], netloc = []\<rparr>)"

definition sample_categories :: json where
  "sample_categories = JArr [JObj [(''id'', JInt 1), (''name'', JStr ''News'')],
                             JObj [(''id'', JInt 2), (''name'', JStr ''Tech'')]]"

definition posts_url :: string where
  "posts_url = ''https://example.com/wp-json/wp/v2/posts''"

definition two_page_site :: server where
  "two_page_site = replay [ok (Some ''2'') (JArr [post_a, post_b]), ok (Some ''2'') (JArr [post_c])]"

definition empty_site :: server where
  "empty_site = replay [ok (Some ''0'') (JArr [])]"

definition failing_site :: server where
  "failing_site = replay [ok (Some ''3'') (JArr [post_a, post_b]), status_only 503]"

definition headerless_site :: server where
  "headerless_site = replay [ok None (JArr [post_a, post_b])]"

definition bad_header_site :: server where
  "bad_header_site = replay [ok None (JObj []), ok (Some ''abc'') (JArr [post_a])]"

definition api_root_site :: server where
  "api_root_site = replay [ok None (JObj [])]"


definition bad_media_site :: server where
  "bad_media_site = replay [ok None (JArr [])]"

definition demo_site :: server where
  "demo_site = replay [ok None (JObj []),
     ok (Some ''2'') (JArr [post_a, post_b]),
     ok (Some ''2'') (JArr [post_c]),
     ok None sample_categories,
     ok None (JObj [(''source_url'', JStr ''https://example.com/c.png'')])]"

definition world_used :: world where
  "world_used = \<lparr>cursor = 0, sent = [page_request posts_url [] 1],
                  ui = [StatusText ''Processing completed.'']\<rparr>"

definition sample_category_dict :: "json \<rightharpoonup> json" where
  "sample_category_dict = [JInt 1 \<mapsto> JStr ''News'', JInt 2 \<mapsto> JStr ''Tech'']"

section \<open>Post records\<close>

text \<open>
  The posts the REST API documents and the data model of the specification describes: an
  object whose title and content, when present, are objects; whose featured-media
  identifier, when present, is an integer or null; whose embedded payload, when present,
  is an object that lists objects under \<^verbatim>\<open>wp:featuredmedia\<close>; whose categories and tags,
  when present, are lists of integers. The program itself checks none of this.
\<close>

fun is_int :: "json \<Rightarrow> bool" where
  "is_int (JInt n) = True"
| "is_int JNull = False"
| "is_int (JBool b) = False"
| "is_int (JStr s) = False"
| "is_int (JArr xs) = False"
| "is_int (JObj kvs) = False"

fun is_obj :: "json \<Rightarrow> bool" where
  "is_obj (JObj kvs) = True"
| "is_obj JNull = False"
| "is_obj (JBool b) = False"
| "is_obj (JInt n) = False"
| "is_obj (JStr s) = False"
| "is_obj (JArr xs) = False"

fun is_list_of :: "(json \<Rightarrow> bool) \<Rightarrow> json \<Rightarrow> bool" where
  "is_list_of P (JArr xs) = list_all P xs"
| "is_list_of P JNull = False"
| "is_list_of P (JBool b) = False"
| "is_list_of P (JInt n) = False"
| "is_list_of P (JStr s) = False"
| "is_list_of P (JObj kvs) = False"

definition field_ok :: "(string \<times> json) list \<Rightarrow> string \<Rightarrow> (json \<Rightarrow> bool) \<Rightarrow> bool" where
  "field_ok kvs key P = (case obj_lookup kvs key of None \<Rightarrow> True | Some v \<Rightarrow> P v)"

fun embedded_ok :: "json \<Rightarrow> bool" where
  "embedded_ok (JObj e) = field_ok e ''wp:featuredmedia'' (is_list_of is_obj)"
| "embedded_ok JNull = False"
| "embedded_ok (JBool b) = False"
| "embedded_ok (JInt n) = False"
| "embedded_ok (JStr s) = False"
| "embedded_ok (JArr xs) = False"

fun post_record :: "json \<Rightarrow> bool" where
  "post_record (JObj kvs) =
     (field_ok kvs ''title'' is_obj \<and> field_ok kvs ''content'' is_obj
      \<and> field_ok kvs ''featured_media'' (\<lambda>m. is_int m \<or> m = JNull)
      \<and> field_ok kvs ''_embedded'' embedded_ok
      \<and> field_ok kvs ''categories'' (is_list_of is_int)
      \<and> field_ok kvs ''tags'' (is_list_of is_int))"
| "post_record JNull = False"
| "post_record (JBool b) = False"
| "post_record (JInt n) = False"
| "post_record (JStr s) = False"
| "post_record (JArr xs) = False"

section \<open>Properties of the paginated fetcher\<close>

subsection \<open>One turn of the loop\<close>

lemma dict_set_idem: "dict_set (dict_set ps k v) k w = dict_set ps k w"
  by (induction ps) auto

lemma page_request_dict_set:
  "page_request base_url (dict_set ps ''page'' v) q = page_request base_url ps q"
  by (simp add: page_request_def dict_set_idem)

lemma fetch_loop_raises:
  assumes "srv (cursor s) (page_request base_url ps page) = RequestException e"
  shows "fetch_loop srv base_url ps item_name all_items page s =
    Some (Inr all_items,
      show_ui (StError (''An error occurred while fetching '' @ item_name @ '': '' @ e))
        (s\<lparr>cursor := Suc (cursor s), sent := sent s @ [page_request base_url ps page]\<rparr>))"
  using assms by (subst fetch_loop.simps) (simp add: http_get_def)

lemma fetch_loop_status:
  assumes "srv (cursor s) (page_request base_url ps page) = Response r"
    and "status_code r \<noteq> 200"
  shows "fetch_loop srv base_url ps item_name all_items page s =
    Some (Inr all_items,
      show_ui (StError (''Error '' @ int_str (status_code r) @ '' while fetching ''
                @ item_name @ '' page '' @ int_str page))
        (s\<lparr>cursor := Suc (cursor s), sent := sent s @ [page_request base_url ps page]\<rparr>))"
  using assms by (subst fetch_loop.simps) (simp add: http_get_def)

lemma fetch_loop_next:
  assumes "srv (cursor s) (page_request base_url ps page) = Response r"
    and "status_code r = 200" and "body r = Inr j" and "py_iter j = Inr items"
    and "total_pages_of r = Inr total_pages" and "page < total_pages"
  shows "fetch_loop srv base_url ps item_name all_items page s =
    fetch_loop srv base_url (dict_set ps ''page'' (JInt page)) item_name
      (all_items @ items) (page + 1)
      (show_ui (StatusText (''Fetching '' @ item_name @ '': Page ''
                 @ int_str page @ ''/'' @ int_str total_pages))
         (s\<lparr>cursor := Suc (cursor s), sent := sent s @ [page_request base_url ps page]\<rparr>))"
  using assms by (subst fetch_loop.simps) (simp add: http_get_def)

lemma fetch_loop_last:
  assumes "srv (cursor s) (page_request base_url ps page) = Response r"
    and "status_code r = 200" and "body r = Inr j" and "py_iter j = Inr items"
    and "total_pages_of r = Inr total_pages" and "total_pages \<le> page"
  shows "fetch_loop srv base_url ps item_name all_items page s =
    Some (Inr (all_items @ items),
      show_ui (StatusText (''Fetching '' @ item_name @ '': Page ''
                 @ int_str page @ ''/'' @ int_str total_pages))
         (s\<lparr>cursor := Suc (cursor s), sent := sent s @ [page_request base_url ps page]\<rparr>))"
  using assms by (subst fetch_loop.simps) (simp add: http_get_def)

lemma fetch_loop_bad_header:
  assumes "srv (cursor s) (page_request base_url ps page) = Response r"
    and "status_code r = 200" and "body r = Inr j" and "py_iter j = Inr items"
    and "total_pages_of r = Inl x"
  shows "fetch_loop srv base_url ps item_name all_items page s =
    Some (Inl x, s\<lparr>cursor := Suc (cursor s), sent := sent s @ [page_request base_url ps page]\<rparr>)"
  using assms by (subst fetch_loop.simps) (simp add: http_get_def)

subsection \<open>Several turns\<close>

text \<open>
  As long as the pages come back with status 200, a body that can be iterated and a
  total above the page number, the loop goes on: after \<open>k\<close> such pages it stands at
  page \<open>p + k\<close> with the items of these pages appended, \<open>k\<close> requests sent.
\<close>

lemma fetch_loop_unroll:
  assumes "\<forall>i<k. \<exists>r j tp. srv (cursor s + i) (page_request base_url ps (p + int i)) = Response r
             \<and> status_code r = 200 \<and> body r = Inr j \<and> py_iter j = Inr (pages i)
             \<and> total_pages_of r = Inr tp \<and> p + int i < tp"
  shows "\<exists>s' ps'. fetch_loop srv base_url ps item_name acc p s =
            fetch_loop srv base_url ps' item_name (acc @ concat (map pages [0..<k])) (p + int k) s'
          \<and> (\<forall>q. page_request base_url ps' q = page_request base_url ps q)
          \<and> cursor s' = cursor s + k
          \<and> sent s' = sent s @ map (\<lambda>i. page_request base_url ps (p + int i)) [0..<k]"
  using assms
proof (induction k)
  case 0
  show ?case by (rule exI [of _ s], rule exI [of _ ps]) simp
next
  case (Suc k)
  from Suc.prems have "\<forall>i<k. \<exists>r j tp. srv (cursor s + i) (page_request base_url ps (p + int i)) = Response r
             \<and> status_code r = 200 \<and> body r = Inr j \<and> py_iter j = Inr (pages i)
             \<and> total_pages_of r = Inr tp \<and> p + int i < tp"
    by simp
  from Suc.IH [OF this] obtain s' ps' where
    eq: "fetch_loop srv base_url ps item_name acc p s =
            fetch_loop srv base_url ps' item_name (acc @ concat (map pages [0..<k])) (p + int k) s'"
    and rq: "\<forall>q. page_request base_url ps' q = page_request base_url ps q"
    and cu: "cursor s' = cursor s + k"
    and se: "sent s' = sent s @ map (\<lambda>i. page_request base_url ps (p + int i)) [0..<k]"
    by blast
  from Suc.prems obtain r j tp where
    r: "srv (cursor s + k) (page_request base_url ps (p + int k)) = Response r"
      "status_code r = 200" "body r = Inr j" "py_iter j = Inr (pages k)"
      "total_pages_of r = Inr tp" "p + int k < tp"
    by blast
  from r(1) rq cu have r': "srv (cursor s') (page_request base_url ps' (p + int k)) = Response r"
    by simp
  let ?s2 = "show_ui (StatusText (''Fetching '' @ item_name @ '': Page ''
                 @ int_str (p + int k) @ ''/'' @ int_str tp))
               (s'\<lparr>cursor := Suc (cursor s'), sent := sent s' @ [page_request base_url ps' (p + int k)]\<rparr>)"
  let ?ps2 = "dict_set ps' ''page'' (JInt (p + int k))"
  have arith: "p + int k + 1 = p + int (Suc k)" by simp
  have cc: "(acc @ concat (map pages [0..<k])) @ pages k = acc @ concat (map pages [0..<Suc k])"
    by simp
  have step: "fetch_loop srv base_url ps' item_name (acc @ concat (map pages [0..<k])) (p + int k) s' =
      fetch_loop srv base_url ?ps2 item_name (acc @ concat (map pages [0..<Suc k])) (p + int (Suc k)) ?s2"
    using fetch_loop_next [where srv=srv and s=s' and ps=ps' and page="p + int k" and base_url=base_url
        and item_name=item_name and all_items="acc @ concat (map pages [0..<k])",
        OF r' r(2) r(3) r(4) r(5) r(6)]
    unfolding arith cc .
  have "\<forall>q. page_request base_url ?ps2 q = page_request base_url ps q"
    using rq by (simp add: page_request_dict_set)
  moreover have "cursor ?s2 = cursor s + Suc k"
    using cu by (simp add: show_ui_def)
  moreover have "sent ?s2 = sent s @ map (\<lambda>i. page_request base_url ps (p + int i)) [0..<Suc k]"
    using se rq by (simp add: show_ui_def)
  ultimately show ?case using eq step by metis
qed

lemma py_int_2: "py_int ''2'' = Inr 2"
  by (simp add: py_int_def int_unsigned_def is_space_def is_digit_def digit_val_def
      max_str_digits_def)
lemma py_int_0: "py_int ''0'' = Inr 0"
  by (simp add: py_int_def int_unsigned_def is_space_def is_digit_def digit_val_def
      max_str_digits_def)
lemma py_int_3: "py_int ''3'' = Inr 3"
  by (simp add: py_int_def int_unsigned_def is_space_def is_digit_def digit_val_def
      max_str_digits_def)
lemma py_int_abc: "py_int ''abc'' = Inl ValueError"
  by (simp add: py_int_def int_unsigned_def is_space_def is_digit_def digit_val_def
      max_str_digits_def)

text \<open>A separator of the range 28 to 31 before the digits is not stripped, and a literal
  of too many digits is not converted: both headers make \<^verbatim>\<open>int()\<close> raise.\<close>

lemma py_int_separator: "py_int [CHR 0x1C, CHR ''2''] = Inl ValueError"
  by (simp add: py_int_def int_unsigned_def is_space_def is_digit_def digit_val_def
      max_str_digits_def)

lemma py_int_too_long:
  assumes "max_str_digits
             < length (filter is_digit (rev (dropWhile is_space (rev (dropWhile is_space s)))))"
  shows "py_int s = Inl ValueError"
  using assms by (simp add: py_int_def Let_def split: option.splits)

text \<open>
  Claim C1, as the code has it. When every answer has status 200, a JSON array as body and
  the same total \<open>N\<close> in the header, \<^verbatim>\<open>fetch_all_pages\<close> returns, having sent exactly
  \<open>max 1 N\<close> requests, for the pages 1 to \<open>max 1 N\<close> in this order, and its result is the
  concatenation of the arrays in the order of the pages; so its length is the sum of their
  lengths. The loop asks for page 1 before it knows any total, so a total of 0 (or below)
  still costs one request.
\<close>

theorem fetch_all_pages_complete:
  assumes N: "py_int h = Inr N" and len: "length pgs = nat (max 1 N)"
    and srv: "\<forall>i<length pgs. srv (cursor s + i) (page_request base_url ps (1 + int i)) =
                Response \<lparr>status_code = 200, total_pages_header = Some h, body = Inr (JArr (pgs ! i))\<rparr>"
  shows "\<exists>s'. fetch_all_pages srv base_url ps item_name s = Some (Inr (concat pgs), s')
           \<and> sent s' = sent s @ map (\<lambda>i. page_request base_url ps (1 + int i)) [0..<nat (max 1 N)]
           \<and> cursor s' = cursor s + nat (max 1 N)
           \<and> length (concat pgs) = sum_list (map length pgs)"
proof -
  define n where "n = nat (max 1 N)"
  define k where "k = n - 1"
  have n: "n = Suc k" "length pgs = Suc k" using len by (simp_all add: n_def k_def)
  have pre: "\<forall>i<k. \<exists>r j tp. srv (cursor s + i) (page_request base_url ps (1 + int i)) = Response r
             \<and> status_code r = 200 \<and> body r = Inr j \<and> py_iter j = Inr (pgs ! i)
             \<and> total_pages_of r = Inr tp \<and> 1 + int i < tp"
  proof (intro allI impI)
    fix i assume i: "i < k"
    let ?r = "\<lparr>status_code = 200, total_pages_header = Some h, body = Inr (JArr (pgs ! i))\<rparr>"
    have "srv (cursor s + i) (page_request base_url ps (1 + int i)) = Response ?r"
      using srv i n by simp
    moreover have "total_pages_of ?r = Inr N" using N by (simp add: total_pages_of_def)
    moreover have "1 + int i < N" using i n by (simp add: n_def k_def)
    ultimately show "\<exists>r j tp. srv (cursor s + i) (page_request base_url ps (1 + int i)) = Response r
             \<and> status_code r = 200 \<and> body r = Inr j \<and> py_iter j = Inr (pgs ! i)
             \<and> total_pages_of r = Inr tp \<and> 1 + int i < tp"
      by (intro exI [of _ ?r] exI [of _ "JArr (pgs ! i)"] exI [of _ N]) simp
  qed
  from fetch_loop_unroll [OF pre, of item_name "[]"] obtain s1 ps1 where
    eq: "fetch_loop srv base_url ps item_name [] 1 s =
           fetch_loop srv base_url ps1 item_name (concat (map ((!) pgs) [0..<k])) (1 + int k) s1"
    and rq: "\<forall>q. page_request base_url ps1 q = page_request base_url ps q"
    and cu: "cursor s1 = cursor s + k"
    and se: "sent s1 = sent s @ map (\<lambda>i. page_request base_url ps (1 + int i)) [0..<k]"
    by auto
  let ?r = "\<lparr>status_code = 200, total_pages_header = Some h, body = Inr (JArr (pgs ! k))\<rparr>"
  have last: "srv (cursor s1) (page_request base_url ps1 (1 + int k)) = Response ?r"
    using srv n rq cu by simp
  have tp: "total_pages_of ?r = Inr N" using N by (simp add: total_pages_of_def)
  have le: "N \<le> 1 + int k" using n by (simp add: n_def)
  have pgs: "concat (map ((!) pgs) [0..<k]) @ pgs ! k = concat pgs"
  proof -
    have "map ((!) pgs) [0..<Suc k] = pgs" using n by (metis map_nth)
    then show ?thesis by (metis concat_append concat.simps(1,2) append_Nil2 map_append
      list.simps(8,9) upt_Suc_append le0)
  qed
  let ?s' = "show_ui (StatusText (''Fetching '' @ item_name @ '': Page ''
                 @ int_str (1 + int k) @ ''/'' @ int_str N))
         (s1\<lparr>cursor := Suc (cursor s1), sent := sent s1 @ [page_request base_url ps1 (1 + int k)]\<rparr>)"
  have fin: "fetch_loop srv base_url ps1 item_name (concat (map ((!) pgs) [0..<k])) (1 + int k) s1 =
      Some (Inr (concat pgs), ?s')"
    using fetch_loop_last [where srv=srv and s=s1 and ps=ps1 and page="1 + int k"
        and base_url=base_url and item_name=item_name
        and all_items="concat (map ((!) pgs) [0..<k])", OF last _ _ _ tp le]
    by (simp add: pgs)
  have "sent ?s' = sent s @ map (\<lambda>i. page_request base_url ps (1 + int i)) [0..<Suc k]"
    using se rq by (simp add: show_ui_def)
  moreover have "cursor ?s' = cursor s + Suc k" using cu by (simp add: show_ui_def)
  ultimately show ?thesis
    using eq fin n unfolding fetch_all_pages_def n_def [symmetric]
    by (simp add: length_concat)
qed

theorem fetch_all_pages_complete_witness:
  "py_int ''2'' = Inr 2 \<and>
   (\<exists>s'. fetch_all_pages two_page_site posts_url (posts_params True False) ''articles'' world0
            = Some (Inr [post_a, post_b, post_c], s')
        \<and> sent s' = [page_request posts_url (posts_params True False) 1,
                     page_request posts_url (posts_params True False) 2]
        \<and> cursor s' = 2)"
proof -
  have h: "\<forall>i<length [ [post_a, post_b], [post_c]].
      two_page_site (cursor world0 + i) (page_request posts_url (posts_params True False) (1 + int i)) =
      Response \<lparr>status_code = 200, total_pages_header = Some ''2'',
                body = Inr (JArr ([ [post_a, post_b], [post_c]] ! i))\<rparr>"
    by (simp add: two_page_site_def replay_def ok_def world0_def less_Suc_eq)
  have l: "length [ [post_a, post_b], [post_c]] = nat (max 1 2)" by simp
  show ?thesis
    using fetch_all_pages_complete [OF py_int_2 l h, of "''articles''"] py_int_2
    by (simp add: world0_def numeral_2_eq_2)
qed

text \<open>
  Claim C1 as stated asks for exactly \<open>N\<close> requests. With the total 0 in the header of
  an answer with no items the fetcher has sent one request, not none.
\<close>

theorem fetch_all_pages_zero_total_counterexample:
  "py_int ''0'' = Inr 0 \<and>
   map_option (length \<circ> sent \<circ> snd)
     (fetch_all_pages empty_site posts_url (posts_params True False) ''articles'' world0) = Some 1"
proof -
  have r: "empty_site (cursor world0) (page_request posts_url (posts_params True False) 1) =
      Response \<lparr>status_code = 200, total_pages_header = Some ''0'', body = Inr (JArr [])\<rparr>"
    by (simp add: empty_site_def replay_def ok_def world0_def)
  have tp: "total_pages_of \<lparr>status_code = 200, total_pages_header = Some ''0'', body = Inr (JArr [])\<rparr> = Inr 0"
    by (simp add: total_pages_of_def py_int_0)
  show ?thesis
    unfolding fetch_all_pages_def
    using fetch_loop_last [where srv=empty_site and s=world0 and page=1 and items="[]"
       and base_url=posts_url and ps="posts_params True False", OF r _ _ _ tp]
    by (simp add: py_int_0 show_ui_def world0_def)
qed

text \<open>
  Claim C2. When \<open>k\<close> pages have been fetched and the next request is answered with
  another status than 200 or raises a request exception, \<^verbatim>\<open>fetch_all_pages\<close> returns (it
  does not raise) the items of these \<open>k\<close> pages, in order; the failed request is the last
  one sent, and the last thing shown is an error message.
\<close>

theorem fetch_all_pages_partial:
  assumes pre: "\<forall>i<k. \<exists>r j tp. srv (cursor s + i) (page_request base_url ps (1 + int i)) = Response r
             \<and> status_code r = 200 \<and> body r = Inr j \<and> py_iter j = Inr (pgs ! i)
             \<and> total_pages_of r = Inr tp \<and> 1 + int i < tp"
    and len: "length pgs = k"
    and fail: "(\<exists>e. srv (cursor s + k) (page_request base_url ps (1 + int k)) = RequestException e)
             \<or> (\<exists>r. srv (cursor s + k) (page_request base_url ps (1 + int k)) = Response r
                   \<and> status_code r \<noteq> 200)"
  shows "\<exists>s'. fetch_all_pages srv base_url ps item_name s = Some (Inr (concat pgs), s')
           \<and> sent s' = sent s @ map (\<lambda>i. page_request base_url ps (1 + int i)) [0..<Suc k]
           \<and> cursor s' = cursor s + Suc k
           \<and> (\<exists>u m. ui s' = u @ [StError m])"
proof -
  from fetch_loop_unroll [OF pre, of item_name "[]"] obtain s1 ps1 where
    eq: "fetch_loop srv base_url ps item_name [] 1 s =
           fetch_loop srv base_url ps1 item_name (concat (map ((!) pgs) [0..<k])) (1 + int k) s1"
    and rq: "\<forall>q. page_request base_url ps1 q = page_request base_url ps q"
    and cu: "cursor s1 = cursor s + k"
    and se: "sent s1 = sent s @ map (\<lambda>i. page_request base_url ps (1 + int i)) [0..<k]"
    by auto
  have pgs: "concat (map ((!) pgs) [0..<k]) = concat pgs"
    using len by (metis map_nth)
  let ?t = "s1\<lparr>cursor := Suc (cursor s1), sent := sent s1 @ [page_request base_url ps1 (1 + int k)]\<rparr>"
  have "\<exists>m. fetch_loop srv base_url ps1 item_name (concat pgs) (1 + int k) s1 =
          Some (Inr (concat pgs), show_ui (StError m) ?t)"
  proof (rule disjE [OF fail])
    assume "\<exists>e. srv (cursor s + k) (page_request base_url ps (1 + int k)) = RequestException e"
    then obtain e where "srv (cursor s1) (page_request base_url ps1 (1 + int k)) = RequestException e"
      using rq cu by auto
    from fetch_loop_raises [where srv=srv and s=s1 and ps=ps1 and base_url=base_url, OF this]
    show ?thesis by blast
  next
    assume "\<exists>r. srv (cursor s + k) (page_request base_url ps (1 + int k)) = Response r
                   \<and> status_code r \<noteq> 200"
    then obtain r where "srv (cursor s1) (page_request base_url ps1 (1 + int k)) = Response r"
      and "status_code r \<noteq> 200"
      using rq cu by auto
    from fetch_loop_status [where srv=srv and s=s1 and ps=ps1 and base_url=base_url, OF this]
    show ?thesis by blast
  qed
  then obtain m where fin: "fetch_loop srv base_url ps1 item_name (concat pgs) (1 + int k) s1 =
          Some (Inr (concat pgs), show_ui (StError m) ?t)" by blast
  have "sent (show_ui (StError m) ?t) = sent s @ map (\<lambda>i. page_request base_url ps (1 + int i)) [0..<Suc k]"
    using se rq by (simp add: show_ui_def)
  moreover have "cursor (show_ui (StError m) ?t) = cursor s + Suc k"
    using cu by (simp add: show_ui_def)
  moreover have "\<exists>u m'. ui (show_ui (StError m) ?t) = u @ [StError m']"
    by (simp add: show_ui_def)
  ultimately show ?thesis
    using eq fin pgs unfolding fetch_all_pages_def by (metis (no_types, lifting))
qed

theorem fetch_all_pages_partial_witness:
  "\<exists>s'. fetch_all_pages failing_site posts_url (posts_params True False) ''articles'' world0
            = Some (Inr [post_a, post_b], s')
        \<and> sent s' = [page_request posts_url (posts_params True False) 1,
                     page_request posts_url (posts_params True False) 2]
        \<and> cursor s' = 2
        \<and> (\<exists>u m. ui s' = u @ [StError m])"
proof -
  let ?r = "\<lparr>status_code = 200, total_pages_header = Some ''3'', body = Inr (JArr [post_a, post_b])\<rparr>"
  have "failing_site (cursor world0 + 0) (page_request posts_url (posts_params True False) (1 + int 0)) = Response ?r
      \<and> status_code ?r = 200 \<and> body ?r = Inr (JArr [post_a, post_b])
      \<and> py_iter (JArr [post_a, post_b]) = Inr ([ [post_a, post_b]] ! 0)
      \<and> total_pages_of ?r = Inr 3 \<and> 1 + int 0 < 3"
    by (simp add: failing_site_def replay_def ok_def world0_def total_pages_of_def py_int_3)
  then have pre: "\<forall>i<Suc 0. \<exists>r j tp.
      failing_site (cursor world0 + i) (page_request posts_url (posts_params True False) (1 + int i)) = Response r
      \<and> status_code r = 200 \<and> body r = Inr j \<and> py_iter j = Inr ([ [post_a, post_b]] ! i)
      \<and> total_pages_of r = Inr tp \<and> 1 + int i < tp"
    by (metis less_Suc0)
  have fail: "(\<exists>e. failing_site (cursor world0 + Suc 0)
                 (page_request posts_url (posts_params True False) (1 + int (Suc 0))) = RequestException e)
     \<or> (\<exists>r. failing_site (cursor world0 + Suc 0)
                 (page_request posts_url (posts_params True False) (1 + int (Suc 0))) = Response r
             \<and> status_code r \<noteq> 200)"
    by (simp add: failing_site_def replay_def status_only_def world0_def)
  have len: "length [ [post_a, post_b]] = Suc 0" by simp
  show ?thesis
    using fetch_all_pages_partial [OF pre len fail, of "''articles''"]
    by (simp add: world0_def numeral_2_eq_2)
qed

text \<open>
  Claim C7. When the first answer has status 200 and no total-pages header, the total is
  taken to be 1: exactly one request is sent and the items of that page are returned.
\<close>

theorem fetch_all_pages_no_header:
  assumes "srv (cursor s) (page_request base_url ps 1) = Response r"
    and "status_code r = 200" and "total_pages_header r = None"
    and "body r = Inr (JArr items)"
  shows "total_pages_of r = Inr 1
     \<and> (\<exists>s'. fetch_all_pages srv base_url ps item_name s = Some (Inr items, s')
           \<and> sent s' = sent s @ [page_request base_url ps 1]
           \<and> cursor s' = Suc (cursor s))"
proof -
  have tp: "total_pages_of r = Inr 1" using assms(3) by (simp add: total_pages_of_def)
  have it: "py_iter (JArr items) = Inr items" by simp
  from fetch_loop_last [where srv=srv and s=s and ps=ps and base_url=base_url and page=1
      and item_name=item_name and all_items="[]", OF assms(1,2,4) it tp]
  show ?thesis using tp unfolding fetch_all_pages_def by (simp add: show_ui_def)
qed

theorem fetch_all_pages_no_header_witness:
  "\<exists>s'. fetch_all_pages headerless_site posts_url (posts_params True False) ''articles'' world0
            = Some (Inr [post_a, post_b], s')
        \<and> sent s' = [page_request posts_url (posts_params True False) 1]
        \<and> cursor s' = 1"
proof -
  let ?r = "\<lparr>status_code = 200, total_pages_header = None, body = Inr (JArr [post_a, post_b])\<rparr>"
  have r: "headerless_site (cursor world0) (page_request posts_url (posts_params True False) 1) = Response ?r"
    by (simp add: headerless_site_def replay_def ok_def world0_def)
  show ?thesis
    using fetch_all_pages_no_header [where srv=headerless_site and s=world0 and r="?r"
      and items="[post_a, post_b]" and item_name="''articles''", OF r]
    by (simp add: world0_def)
qed

section \<open>Properties of the site validator\<close>

text \<open>
  Claim C6. The validator succeeds exactly when the parser gives a scheme and a host and
  the GET of \<^verbatim>\<open>{scheme}://{host}/wp-json/\<close> is answered with status 200. When the scheme
  or the host is missing it fails with a message and sends nothing; otherwise it sends this
  one GET, through \<^verbatim>\<open>requests.get\<close> and not through the session that retries, and any
  other status or a request exception makes it fail with a message. The messages are not
  empty.
\<close>

theorem validate_wordpress_site_verdict:
  "((\<exists>msg. fst (validate_wordpress_site urlparse srv u s) = Inr (True, msg)) \<longleftrightarrow>
      (\<exists>p r. urlparse u = Inr p \<and> scheme p \<noteq> [] \<and> netloc p \<noteq> []
           \<and> srv (cursor s) (api_request p) = Response r \<and> status_code r = 200))
   \<and> (\<forall>p. urlparse u = Inr p \<longrightarrow>
         (scheme p = [] \<or> netloc p = [] \<longrightarrow>
            (\<exists>msg. validate_wordpress_site urlparse srv u s = (Inr (False, msg), s) \<and> msg \<noteq> []))
       \<and> (scheme p \<noteq> [] \<and> netloc p \<noteq> [] \<longrightarrow>
            sent (snd (validate_wordpress_site urlparse srv u s)) = sent s @ [api_request p]
          \<and> via (api_request p) = Plain
          \<and> url (api_request p) = scheme p @ ''://'' @ netloc p @ ''/wp-json/''
          \<and> (\<forall>r. srv (cursor s) (api_request p) = Response r \<and> status_code r \<noteq> 200 \<longrightarrow>
                (\<exists>msg. fst (validate_wordpress_site urlparse srv u s) = Inr (False, msg) \<and> msg \<noteq> []))
          \<and> (\<forall>e. srv (cursor s) (api_request p) = RequestException e \<longrightarrow>
                (\<exists>msg. fst (validate_wordpress_site urlparse srv u s) = Inr (False, msg) \<and> msg \<noteq> []))))"
proof (cases "urlparse u")
  case (Inl e)
  then show ?thesis by (simp add: validate_wordpress_site_def)
next
  case (Inr p)
  show ?thesis
  proof (cases "scheme p = [] \<or> netloc p = []")
    case True
    with Inr show ?thesis by (auto simp add: validate_wordpress_site_def)
  next
    case False
    show ?thesis
    proof (cases "srv (cursor s) (api_request p)")
      case (Response r)
      with Inr False show ?thesis
        by (auto simp add: validate_wordpress_site_def http_get_def api_request_def)
    next
      case (RequestException e)
      with Inr False show ?thesis
        by (auto simp add: validate_wordpress_site_def http_get_def api_request_def)
    qed
  qed
qed

theorem validate_wordpress_site_verdict_witness:
  "\<exists>msg. fst (validate_wordpress_site sample_parse api_root_site ''https://example.com'' world0)
           = Inr (True, msg)"
proof -
  let ?p = "\<lparr>scheme = ''https'', netloc = ''example.com''\<rparr>"
  let ?v = "\<lparr>status_code = 200, total_pages_header = None, body = Inr (JObj [])\<rparr>"
  have "sample_parse ''https://example.com'' = Inr ?p \<and> scheme ?p \<noteq> [] \<and> netloc ?p \<noteq> []
      \<and> api_root_site (cursor world0) (api_request ?p) = Response ?v \<and> status_code ?v = 200"
    by (simp add: sample_parse_def api_root_site_def replay_def ok_def world0_def)
  then have "\<exists>p r. sample_parse ''https://example.com'' = Inr p \<and> scheme p \<noteq> [] \<and> netloc p \<noteq> []
           \<and> api_root_site (cursor world0) (api_request p) = Response r \<and> status_code r = 200"
    by blast
  with validate_wordpress_site_verdict [of sample_parse api_root_site "''https://example.com''" world0]
  show ?thesis by blast
qed

section \<open>Properties of the media resolver\<close>

lemma obj_keys_lookup: "k \<in> set (obj_keys kvs) \<longleftrightarrow> obj_lookup kvs k \<noteq> None"
  by (simp add: obj_keys_def obj_lookup_def map_of_eq_None_iff)

lemma post_record_embedded:
  assumes "post_record post"
  shows "\<exists>ms. embedded_media_of post = Inr (JArr ms) \<and> list_all is_obj ms"
proof -
  from assms obtain kvs where p: "post = JObj kvs" by (cases post) auto
  from assms p have e: "field_ok kvs ''_embedded'' embedded_ok" by simp
  show ?thesis
  proof (cases "obj_lookup kvs ''_embedded''")
    case None
    then show ?thesis using p by (simp add: embedded_media_of_def obj_lookup_def)
  next
    case (Some emb)
    with e have "embedded_ok emb" by (simp add: field_ok_def)
    then obtain ekvs where emb: "emb = JObj ekvs"
      and f: "field_ok ekvs ''wp:featuredmedia'' (is_list_of is_obj)"
      by (cases emb) auto
    show ?thesis
    proof (cases "obj_lookup ekvs ''wp:featuredmedia''")
      case None
      then show ?thesis using p Some emb by (simp add: embedded_media_of_def)
    next
      case (Some m)
      with f have "is_list_of is_obj m" by (simp add: field_ok_def)
      then obtain ms where "m = JArr ms" "list_all is_obj ms" by (cases m) auto
      then show ?thesis
        using p \<open>obj_lookup kvs ''_embedded'' = Some emb\<close> emb Some
        by (simp add: embedded_media_of_def)
    qed
  qed
qed

lemma has_source_url_objs:
  assumes "list_all is_obj ms"
  shows "has_source_url (JArr ms) = Inr False
     \<or> (\<exists>m rest v. ms = JObj m # rest \<and> obj_lookup m ''source_url'' = Some v
          \<and> has_source_url (JArr ms) = Inr True)"
proof (cases ms)
  case Nil
  then show ?thesis by (simp add: has_source_url_def)
next
  case (Cons x rest)
  with assms obtain m where x: "x = JObj m" by (cases x) auto
  show ?thesis
  proof (cases "obj_lookup m ''source_url''")
    case None
    then show ?thesis using Cons x by (simp add: has_source_url_def obj_keys_lookup)
  next
    case (Some v)
    then show ?thesis using Cons x by (simp add: has_source_url_def obj_keys_lookup)
  qed
qed


lemma fetch_media_cursor:
  "cursor (snd (fetch_media srv base_site_url media_id s)) = Suc (cursor s)"
  by (simp add: fetch_media_def http_get_def show_ui_def split: outcome.splits sum.splits)




section \<open>Properties of the row builder\<close>

lemma map_exn_dict_get:
  assumes "\<forall>i\<in>set ids. hash_key i = Inr i"
  shows "map_exn (\<lambda>i. dict_get d i dflt) ids
       = Inr (map (\<lambda>i. case d i of None \<Rightarrow> dflt | Some v \<Rightarrow> v) ids)"
  using assms by (induction ids) (simp_all add: dict_get_def)

lemma map_exn_as_str: "map_exn as_str (map JStr ss) = Inr ss"
  by (induction ss) simp_all

lemma joined_names_ints:
  assumes ids: "(case obj_lookup kvs key of None \<Rightarrow> JArr [] | Some v \<Rightarrow> v) = JArr (map JInt ids)"
    and names: "\<forall>i\<in>set ids. d (JInt i) = None \<or> (\<exists>n. d (JInt i) = Some (JStr n))"
  shows "joined_names d (JObj kvs) key
       = Inr (join_strs '', ''
           (map (\<lambda>i. case d (JInt i) of None \<Rightarrow> ''Unknown'' | Some v \<Rightarrow> py_str v) ids))"
proof -
  let ?name = "\<lambda>i. case d (JInt i) of None \<Rightarrow> ''Unknown'' | Some v \<Rightarrow> py_str v"
  have g: "py_get (JObj kvs) key (JArr []) = Inr (JArr (map JInt ids))"
    using ids by simp
  show ?thesis
  proof (cases "ids = []")
    case True
    then show ?thesis using g by (simp add: joined_names_def py_join_def)
  next
    case False
    have "\<forall>i\<in>set (map JInt ids). hash_key i = Inr i" by auto
    then have a: "map_exn (\<lambda>i. dict_get d i (JStr ''Unknown'')) (map JInt ids)
        = Inr (map (\<lambda>i. case d i of None \<Rightarrow> JStr ''Unknown'' | Some v \<Rightarrow> v) (map JInt ids))"
      by (rule map_exn_dict_get)
    have b: "map (\<lambda>i. case d i of None \<Rightarrow> JStr ''Unknown'' | Some v \<Rightarrow> v) (map JInt ids)
        = map JStr (map ?name ids)"
      using names by (fastforce split: option.splits)
    have "joined_names d (JObj kvs) key =
        (case map_exn (\<lambda>i. dict_get d i (JStr ''Unknown'')) (map JInt ids) of
           Inl e \<Rightarrow> Inl e | Inr names \<Rightarrow> py_join '', '' names)"
      using g False by (simp add: joined_names_def)
    also have "\<dots> = py_join '', '' (map JStr (map ?name ids))"
      unfolding a b by simp
    also have "\<dots> = Inr (join_strs '', '' (map ?name ids))"
      unfolding py_join_def map_exn_as_str by simp
    finally show ?thesis .
  qed
qed

text \<open>
  Claim C4. With the option on, the names of a post whose list under \<open>key\<close> holds the
  identifiers \<open>ids\<close>, looked up in a dictionary of names, are: for each identifier in the
  order of the list, its name when the dictionary has it and \<^verbatim>\<open>Unknown\<close> when not, joined
  with a comma and a space; an empty list, or none, gives the empty string.
\<close>

theorem category_and_tag_names:
  assumes ids: "(case obj_lookup kvs key of None \<Rightarrow> JArr [] | Some v \<Rightarrow> v) = JArr (map JInt ids)"
    and names: "\<forall>i\<in>set ids. d (JInt i) = None \<or> (\<exists>n. d (JInt i) = Some (JStr n))"
  shows "joined_names d (JObj kvs) key
       = Inr (join_strs '', ''
           (map (\<lambda>i. case d (JInt i) of None \<Rightarrow> ''Unknown'' | Some v \<Rightarrow> py_str v) ids))
     \<and> add_names True key d (JObj kvs) post_data
       = Inr (dict_set post_data key (JStr (join_strs '', ''
           (map (\<lambda>i. case d (JInt i) of None \<Rightarrow> ''Unknown'' | Some v \<Rightarrow> py_str v) ids))))
     \<and> (ids = [] \<longrightarrow> joined_names d (JObj kvs) key = Inr [])"
proof -
  from joined_names_ints [OF ids names] show ?thesis by (auto simp add: add_names_def)
qed

theorem category_and_tag_names_witness:
  "joined_names sample_category_dict post_a ''categories'' = Inr ''News, Unknown''"
proof -
  have ids: "(case obj_lookup [(''link'', JStr ''https://example.com/a''),
     (''title'', JObj [(''rendered'', JStr ''A'')]),
     (''content'', JObj [(''rendered'', JStr ''<p>a</p>'')]),
     (''featured_media'', JInt 7),
     (''categories'', JArr [JInt 1, JInt 5]),
     (''_embedded'', JObj [(''wp:featuredmedia'',
        JArr [JObj [(''source_url'', JStr ''https://example.com/a.png'')]])])] ''categories''
       of None \<Rightarrow> JArr [] | Some v \<Rightarrow> v) = JArr (map JInt [1, 5])"
    by (simp add: obj_lookup_def)
  have names: "\<forall>i\<in>set [1, 5]. sample_category_dict (JInt i) = None
       \<or> (\<exists>n. sample_category_dict (JInt i) = Some (JStr n))"
    by (simp add: sample_category_dict_def)
  have vals: "sample_category_dict (JInt 1) = Some (JStr ''News'')"
    "sample_category_dict (JInt 5) = None"
    by (simp_all add: sample_category_dict_def)
  from category_and_tag_names [OF ids names]
  show ?thesis by (simp add: post_a_def vals)
qed

lemma add_names_shape:
  assumes "add_names option key d post post_data = Inr row" and "key \<notin> fst ` set post_data"
  shows "\<exists>n. row = post_data @ (if option then [(key, JStr n)] else [])"
proof -
  have app: "\<And>v. dict_set post_data key v = post_data @ [(key, v)]"
    using assms(2) by (induction post_data) auto
  show ?thesis using assms(1) by (auto simp add: add_names_def app split: sum.splits if_splits)
qed

lemma build_row_Inr:
  assumes "build_row srv base_site_url copt topt cd td total_posts index post s = (Inr row, s')"
  shows "\<exists>link title content image_url pd s1.
      py_get post ''link'' (JStr []) = Inr link
    \<and> rendered post ''title'' = Inr title
    \<and> rendered post ''content'' = Inr content
    \<and> fst (get_image_url srv post base_site_url s1) = Inr image_url
    \<and> add_names copt ''categories'' cd post
           [(''url'', link), (''title'', title), (''content'', content), (''image_url'', image_url)]
         = Inr pd
    \<and> add_names topt ''tags'' td post pd = Inr row"
proof -
  define s1 where "s1 = show_ui (Progress index total_posts)
                 (show_ui (StatusText (''Processing article '' @ nat_str index @ ''/''
                    @ nat_str total_posts)) s)"
  have a: "(case py_get post ''link'' (JStr []) of
           Inl e \<Rightarrow> (Inl e, s1)
         | Inr link \<Rightarrow>
             (case rendered post ''title'' of
                Inl e \<Rightarrow> (Inl e, s1)
              | Inr title \<Rightarrow>
                  (case rendered post ''content'' of
                     Inl e \<Rightarrow> (Inl e, s1)
                   | Inr content \<Rightarrow>
                       (case get_image_url srv post base_site_url s1 of
                          (Inl e, s2) \<Rightarrow> (Inl e, s2)
                        | (Inr image_url, s2) \<Rightarrow>
                            (case add_names copt ''categories'' cd post
                                    [(''url'', link), (''title'', title), (''content'', content),
                                     (''image_url'', image_url)] of
                               Inl e \<Rightarrow> (Inl e, s2)
                             | Inr post_data \<Rightarrow>
                                 (add_names topt ''tags'' td post post_data, s2)))))) = (Inr row, s')"
    using assms unfolding build_row_def Let_def s1_def .
  obtain link where l: "py_get post ''link'' (JStr []) = Inr link"
    using a by (cases "py_get post ''link'' (JStr [])") simp_all
  obtain title where t: "rendered post ''title'' = Inr title"
    using a l by (cases "rendered post ''title''") simp_all
  obtain content where c: "rendered post ''content'' = Inr content"
    using a l t by (cases "rendered post ''content''") simp_all
  obtain r s2 where g: "get_image_url srv post base_site_url s1 = (r, s2)"
    by (cases "get_image_url srv post base_site_url s1") auto
  obtain image_url where i: "r = Inr image_url"
    using a l t c g by (cases r) simp_all
  obtain pd where pd: "add_names copt ''categories'' cd post
           [(''url'', link), (''title'', title), (''content'', content), (''image_url'', image_url)]
         = Inr pd"
    using a l t c g i
    by (cases "add_names copt ''categories'' cd post
           [(''url'', link), (''title'', title), (''content'', content), (''image_url'', image_url)]")
       simp_all
  have row: "add_names topt ''tags'' td post pd = Inr row"
    using a l t c g i pd by simp
  have "fst (get_image_url srv post base_site_url s1) = Inr image_url" using g i by simp
  then show ?thesis using l t c pd row by blast
qed

lemma build_row_keys:
  assumes "build_row srv base_site_url copt topt cd td total_posts index post s = (Inr row, s')"
  shows "map fst row = [''url'', ''title'', ''content'', ''image_url'']
           @ (if copt then [''categories''] else []) @ (if topt then [''tags''] else [])"
proof -
  from build_row_Inr [OF assms] obtain link title content image_url pd where
    pd: "add_names copt ''categories'' cd post
           [(''url'', link), (''title'', title), (''content'', content), (''image_url'', image_url)]
         = Inr pd"
    and row: "add_names topt ''tags'' td post pd = Inr row"
    by blast
  have "''categories'' \<notin> fst ` set [(''url'', link), (''title'', title), (''content'', content),
          (''image_url'', image_url)]" by simp
  from add_names_shape [OF pd this] obtain n where
    pd': "pd = [(''url'', link), (''title'', title), (''content'', content), (''image_url'', image_url)]
             @ (if copt then [(''categories'', JStr n)] else [])"
    by blast
  have "''tags'' \<notin> fst ` set pd" by (auto simp add: pd')
  from add_names_shape [OF row this] obtain n' where
    "row = pd @ (if topt then [(''tags'', JStr n')] else [])" by blast
  then show ?thesis by (simp add: pd')
qed

lemma build_rows_Inr:
  assumes "build_rows srv base_site_url copt topt cd td total_posts index acc posts s = (Inr rows, s')"
  shows "\<exists>new. rows = acc @ new \<and> length new = length posts
     \<and> (\<forall>i<length posts. \<exists>s1 s2.
           build_row srv base_site_url copt topt cd td total_posts (index + i) (posts ! i) s1
             = (Inr (new ! i), s2))"
  using assms
proof (induction posts arbitrary: index acc s)
  case Nil
  then show ?case by simp
next
  case (Cons post posts)
  obtain r s1 where b: "build_row srv base_site_url copt topt cd td total_posts index post s = (r, s1)"
    by (cases "build_row srv base_site_url copt topt cd td total_posts index post s") auto
  obtain row where r: "r = Inr row"
    using Cons.prems b by (cases r) simp_all
  have row: "build_row srv base_site_url copt topt cd td total_posts index post s = (Inr row, s1)"
    using b r by simp
  have rest: "build_rows srv base_site_url copt topt cd td total_posts (Suc index) (acc @ [row]) posts s1
                 = (Inr rows, s')"
    using Cons.prems b r by simp
  from Cons.IH [OF rest] obtain new where
    new: "rows = (acc @ [row]) @ new" "length new = length posts"
    and each: "\<forall>i<length posts. \<exists>s1 s2.
           build_row srv base_site_url copt topt cd td total_posts (Suc index + i) (posts ! i) s1
             = (Inr (new ! i), s2)"
    by blast
  have "\<forall>i<length (post # posts). \<exists>s1 s2.
           build_row srv base_site_url copt topt cd td total_posts (index + i) ((post # posts) ! i) s1
             = (Inr ((row # new) ! i), s2)"
  proof (intro allI impI)
    fix i assume "i < length (post # posts)"
    then show "\<exists>s1 s2. build_row srv base_site_url copt topt cd td total_posts (index + i)
                 ((post # posts) ! i) s1 = (Inr ((row # new) ! i), s2)"
    proof (cases i)
      case 0
      then show ?thesis using row by auto
    next
      case (Suc j)
      with \<open>i < length (post # posts)\<close> have "j < length posts" by simp
      with each obtain t1 t2 where
        "build_row srv base_site_url copt topt cd td total_posts (Suc index + j) (posts ! j) t1
             = (Inr (new ! j), t2)" by blast
      then show ?thesis using Suc by auto
    qed
  qed
  then show ?case using new by (intro exI [of _ "row # new"]) simp
qed

lemma rendered_total:
  assumes "field_ok kvs key is_obj"
  shows "\<exists>v. rendered (JObj kvs) key = Inr v"
proof (cases "obj_lookup kvs key")
  case None
  then show ?thesis by (simp add: rendered_def)
next
  case (Some x)
  with assms have "is_obj x" by (simp add: field_ok_def)
  then obtain m where "x = JObj m" by (cases x) auto
  with Some show ?thesis by (simp add: rendered_def)
qed

lemma fetch_media_total:
  assumes "\<forall>k m r j. srv k (media_request base_site_url m) = Response r \<and> status_code r = 200
              \<and> body r = Inr j \<longrightarrow> is_obj j"
  shows "\<exists>v s'. fetch_media srv base_site_url media_id s = (Inr v, s')"
proof (cases "srv (cursor s) (media_request base_site_url media_id)")
  case (RequestException e)
  then show ?thesis by (simp add: fetch_media_def http_get_def)
next
  case (Response r)
  show ?thesis
  proof (cases "status_code r = 200")
    case False
    with Response show ?thesis by (simp add: fetch_media_def http_get_def)
  next
    case True
    show ?thesis
    proof (cases "body r")
      case (Inl e)
      with Response True show ?thesis by (simp add: fetch_media_def http_get_def)
    next
      case (Inr j)
      with assms Response True have "is_obj j" by blast
      then obtain m where "j = JObj m" by (cases j) auto
      with Response True Inr show ?thesis by (simp add: fetch_media_def http_get_def)
    qed
  qed
qed

lemma get_image_url_total:
  assumes rec: "post_record post"
    and media: "\<forall>k m r j. srv k (media_request base_site_url m) = Response r \<and> status_code r = 200
              \<and> body r = Inr j \<longrightarrow> is_obj j"
  shows "\<exists>v s'. get_image_url srv post base_site_url s = (Inr v, s')"
proof -
  from rec obtain kvs where p: "post = JObj kvs" by (cases post) auto
  define media_id where "media_id = (case obj_lookup kvs ''featured_media'' of None \<Rightarrow> JNull | Some v \<Rightarrow> v)"
  have m: "py_get post ''featured_media'' JNull = Inr media_id" by (simp add: p media_id_def)
  from post_record_embedded [OF rec] obtain ms where
    em: "embedded_media_of post = Inr (JArr ms)" and objs: "list_all is_obj ms" by blast
  show ?thesis
  proof (cases "truthy media_id")
    case False
    then show ?thesis using m by (simp add: get_image_url_def)
  next
    case True
    from has_source_url_objs [OF objs] show ?thesis
    proof
      assume f: "has_source_url (JArr ms) = Inr False"
      have "get_image_url srv post base_site_url s = fetch_media srv base_site_url media_id s"
        using m em True f by (simp add: get_image_url_def)
      then show ?thesis using fetch_media_total [OF media] by simp
    next
      assume "\<exists>mo rest v. ms = JObj mo # rest \<and> obj_lookup mo ''source_url'' = Some v
          \<and> has_source_url (JArr ms) = Inr True"
      then obtain mo rest v where "ms = JObj mo # rest" "obj_lookup mo ''source_url'' = Some v"
        "has_source_url (JArr ms) = Inr True" by blast
      then show ?thesis using m em True by (simp add: get_image_url_def)
    qed
  qed
qed

lemma list_all_is_int: "list_all is_int xs \<Longrightarrow> \<exists>ids. xs = map JInt ids"
proof (induction xs)
  case Nil
  then show ?case by simp
next
  case (Cons x xs)
  then obtain ids where "xs = map JInt ids" by auto
  moreover from Cons.prems obtain n where "x = JInt n" by (cases x) auto
  ultimately have "x # xs = map JInt (n # ids)" by simp
  then show ?case by (rule exI)
qed

lemma joined_names_total:
  assumes f: "field_ok kvs key (is_list_of is_int)"
    and names: "\<forall>k v. d k = Some v \<longrightarrow> (\<exists>n. v = JStr n)"
  shows "\<exists>n. joined_names d (JObj kvs) key = Inr n"
proof -
  have "\<exists>ids. (case obj_lookup kvs key of None \<Rightarrow> JArr [] | Some v \<Rightarrow> v) = JArr (map JInt ids)"
  proof (cases "obj_lookup kvs key")
    case None
    then have "(case obj_lookup kvs key of None \<Rightarrow> JArr [] | Some v \<Rightarrow> v) = JArr (map JInt [])"
      by simp
    then show ?thesis by (rule exI)
  next
    case (Some x)
    with f have "is_list_of is_int x" by (simp add: field_ok_def)
    then obtain xs where "x = JArr xs" "list_all is_int xs" by (cases x) auto
    with list_all_is_int obtain ids where "x = JArr (map JInt ids)" by blast
    with Some have "(case obj_lookup kvs key of None \<Rightarrow> JArr [] | Some v \<Rightarrow> v) = JArr (map JInt ids)"
      by simp
    then show ?thesis by (rule exI)
  qed
  then obtain ids where
    ids: "(case obj_lookup kvs key of None \<Rightarrow> JArr [] | Some v \<Rightarrow> v) = JArr (map JInt ids)" ..
  have "\<forall>i\<in>set ids. d (JInt i) = None \<or> (\<exists>n. d (JInt i) = Some (JStr n))"
    using names by (metis option.exhaust)
  from joined_names_ints [OF ids this] show ?thesis by blast
qed

lemma add_names_total:
  assumes "field_ok kvs key (is_list_of is_int)"
    and "\<forall>k v. d k = Some v \<longrightarrow> (\<exists>n. v = JStr n)"
  shows "\<exists>row. add_names option key d (JObj kvs) post_data = Inr row"
  using joined_names_total [OF assms] by (auto simp add: add_names_def)

lemma build_row_total:
  assumes rec: "post_record post"
    and cd: "\<forall>k v. cd k = Some v \<longrightarrow> (\<exists>n. v = JStr n)"
    and td: "\<forall>k v. td k = Some v \<longrightarrow> (\<exists>n. v = JStr n)"
    and media: "\<forall>k m r j. srv k (media_request base_site_url m) = Response r \<and> status_code r = 200
              \<and> body r = Inr j \<longrightarrow> is_obj j"
  shows "\<exists>row s'. build_row srv base_site_url copt topt cd td total_posts index post s = (Inr row, s')"
proof -
  from rec obtain kvs where p: "post = JObj kvs" by (cases post) auto
  from rec p have f: "field_ok kvs ''title'' is_obj" "field_ok kvs ''content'' is_obj"
    "field_ok kvs ''categories'' (is_list_of is_int)" "field_ok kvs ''tags'' (is_list_of is_int)"
    by simp_all
  define s1 where "s1 = show_ui (Progress index total_posts)
                 (show_ui (StatusText (''Processing article '' @ nat_str index @ ''/''
                    @ nat_str total_posts)) s)"
  obtain link where l: "py_get post ''link'' (JStr []) = Inr link" using p by simp
  from rendered_total [OF f(1)] obtain title where t: "rendered post ''title'' = Inr title"
    using p by blast
  from rendered_total [OF f(2)] obtain content where c: "rendered post ''content'' = Inr content"
    using p by blast
  from get_image_url_total [OF rec media] obtain image_url s2 where
    g: "get_image_url srv post base_site_url s1 = (Inr image_url, s2)" by blast
  from add_names_total [OF f(3) cd] obtain pd where
    pd: "add_names copt ''categories'' cd post
           [(''url'', link), (''title'', title), (''content'', content), (''image_url'', image_url)]
         = Inr pd" using p by blast
  from add_names_total [OF f(4) td] obtain row where
    row: "add_names topt ''tags'' td post pd = Inr row" using p by blast
  have "build_row srv base_site_url copt topt cd td total_posts index post s = (Inr row, s2)"
    unfolding build_row_def Let_def s1_def [symmetric] using l t c g pd row by simp
  then show ?thesis by blast
qed

lemma build_rows_total:
  assumes "\<forall>p\<in>set posts. post_record p"
    and cd: "\<forall>k v. cd k = Some v \<longrightarrow> (\<exists>n. v = JStr n)"
    and td: "\<forall>k v. td k = Some v \<longrightarrow> (\<exists>n. v = JStr n)"
    and media: "\<forall>k m r j. srv k (media_request base_site_url m) = Response r \<and> status_code r = 200
              \<and> body r = Inr j \<longrightarrow> is_obj j"
  shows "\<exists>rows s'. build_rows srv base_site_url copt topt cd td total_posts index acc posts s
           = (Inr rows, s')"
  using assms(1)
proof (induction posts arbitrary: index acc s)
  case Nil
  then show ?case by simp
next
  case (Cons post posts)
  then have "post_record post" by simp
  from build_row_total [OF this cd td media] obtain row s1 where
    "build_row srv base_site_url copt topt cd td total_posts index post s = (Inr row, s1)" by blast
  moreover from Cons have "\<exists>rows s'. build_rows srv base_site_url copt topt cd td total_posts
      (Suc index) (acc @ [row]) posts s1 = (Inr rows, s')" by simp
  ultimately show ?case by simp
qed

text \<open>
  Claim C5, as the code has it. Whenever the loop over the posts ends without an
  exception it has built exactly one row per post, in the order of the posts, the row at
  position \<open>i\<close> from the post at position \<open>i\<close>, with the keys \<^verbatim>\<open>url\<close>, \<^verbatim>\<open>title\<close>,
  \<^verbatim>\<open>content\<close>, \<^verbatim>\<open>image_url\<close>, then \<^verbatim>\<open>categories\<close> exactly when that option is on, then
  \<^verbatim>\<open>tags\<close> exactly when that option is on. It does end so when every post is a post
  record, every name in the two dictionaries is a string, and every answer with status 200
  to a media request carries a JSON object or no JSON at all.
\<close>

theorem build_rows_one_row_per_post:
  "(\<forall>rows s'. build_rows srv base_site_url copt topt cd td (length posts) 1 [] posts s = (Inr rows, s')
       \<longrightarrow> length rows = length posts
         \<and> (\<forall>i<length posts.
               map fst (rows ! i) = [''url'', ''title'', ''content'', ''image_url'']
                   @ (if copt then [''categories''] else []) @ (if topt then [''tags''] else [])
             \<and> (\<exists>s1 s2. build_row srv base_site_url copt topt cd td (length posts) (Suc i)
                           (posts ! i) s1 = (Inr (rows ! i), s2))))
   \<and> ((\<forall>p\<in>set posts. post_record p)
        \<and> (\<forall>k v. cd k = Some v \<longrightarrow> (\<exists>n. v = JStr n))
        \<and> (\<forall>k v. td k = Some v \<longrightarrow> (\<exists>n. v = JStr n))
        \<and> (\<forall>k m r j. srv k (media_request base_site_url m) = Response r \<and> status_code r = 200
              \<and> body r = Inr j \<longrightarrow> is_obj j)
       \<longrightarrow> (\<exists>rows s'. build_rows srv base_site_url copt topt cd td (length posts) 1 [] posts s
                         = (Inr rows, s')))"
proof (intro conjI allI impI)
  fix rows s'
  assume a: "build_rows srv base_site_url copt topt cd td (length posts) 1 [] posts s = (Inr rows, s')"
  from build_rows_Inr [OF a] have len: "length rows = length posts"
    and each: "\<forall>i<length posts. \<exists>s1 s2.
           build_row srv base_site_url copt topt cd td (length posts) (1 + i) (posts ! i) s1
             = (Inr (rows ! i), s2)"
    by auto
  show "length rows = length posts" by (rule len)
  fix i assume i: "i < length posts"
  with each obtain s1 s2 where
    b: "build_row srv base_site_url copt topt cd td (length posts) (Suc i) (posts ! i) s1
             = (Inr (rows ! i), s2)" by auto
  show "map fst (rows ! i) = [''url'', ''title'', ''content'', ''image_url'']
                   @ (if copt then [''categories''] else []) @ (if topt then [''tags''] else [])"
    by (rule build_row_keys [OF b])
  show "\<exists>s1 s2. build_row srv base_site_url copt topt cd td (length posts) (Suc i)
                           (posts ! i) s1 = (Inr (rows ! i), s2)"
    using b by blast
next
  assume "(\<forall>p\<in>set posts. post_record p)
        \<and> (\<forall>k v. cd k = Some v \<longrightarrow> (\<exists>n. v = JStr n))
        \<and> (\<forall>k v. td k = Some v \<longrightarrow> (\<exists>n. v = JStr n))
        \<and> (\<forall>k m r j. srv k (media_request base_site_url m) = Response r \<and> status_code r = 200
              \<and> body r = Inr j \<longrightarrow> is_obj j)"
  then have a: "\<forall>p\<in>set posts. post_record p"
    and b: "\<forall>k v. cd k = Some v \<longrightarrow> (\<exists>n. v = JStr n)"
    and c: "\<forall>k v. td k = Some v \<longrightarrow> (\<exists>n. v = JStr n)"
    and d: "\<forall>k m r j. srv k (media_request base_site_url m) = Response r \<and> status_code r = 200
              \<and> body r = Inr j \<longrightarrow> is_obj j"
    by blast+
  show "\<exists>rows s'. build_rows srv base_site_url copt topt cd td (length posts) 1 [] posts s
                         = (Inr rows, s')"
    by (rule build_rows_total [OF a b c d])
qed

lemma sample_category_dict_names:
  "\<forall>k v. sample_category_dict k = Some v \<longrightarrow> (\<exists>n. v = JStr n)"
  by (auto simp add: sample_category_dict_def split: if_splits)

lemma api_root_site_media:
  "\<forall>k m r j. api_root_site k (media_request base_site_url m) = Response r \<and> status_code r = 200
              \<and> body r = Inr j \<longrightarrow> is_obj j"
  by (auto simp add: api_root_site_def replay_def ok_def split: if_splits)

theorem build_rows_one_row_per_post_witness:
  "\<exists>rows s'. build_rows api_root_site ''https://example.com'' True False
       sample_category_dict sample_category_dict (length [post_a, post_b]) 1 []
       [post_a, post_b] world0 = (Inr rows, s')
     \<and> length rows = 2
     \<and> map fst (rows ! 1) = [''url'', ''title'', ''content'', ''image_url'', ''categories'']"
proof -
  have recs: "\<forall>p\<in>set [post_a, post_b]. post_record p"
    by (simp add: post_a_def post_b_def field_ok_def obj_lookup_def)
  note t = build_rows_one_row_per_post [of api_root_site "''https://example.com''" True False
       sample_category_dict sample_category_dict "[post_a, post_b]" world0]
  from t recs sample_category_dict_names api_root_site_media obtain rows s' where
    r: "build_rows api_root_site ''https://example.com'' True False
       sample_category_dict sample_category_dict (length [post_a, post_b]) 1 []
       [post_a, post_b] world0 = (Inr rows, s')"
    by blast
  with t have "length rows = length [post_a, post_b]"
    and "\<forall>i<length [post_a, post_b]. map fst (rows ! i)
           = [''url'', ''title'', ''content'', ''image_url'']
               @ (if True then [''categories''] else []) @ (if False then [''tags''] else [])"
    by blast+
  then have "length rows = 2"
    and "map fst (rows ! 1) = [''url'', ''title'', ''content'', ''image_url'', ''categories'']"
    by simp_all
  with r show ?thesis by (intro exI [of _ rows] exI [of _ s'] conjI)
qed

text \<open>
  Claim C5 as stated promises a row for every post of every fetched list. A post record
  whose media request is answered with status 200 and a JSON array gets none: \<^verbatim>\<open>.get\<close> on
  the array raises \<^verbatim>\<open>AttributeError\<close>, which no handler of the loop catches.
\<close>

theorem build_rows_media_answer_counterexample:
  "post_record post_c
   \<and> fst (build_rows bad_media_site ''https://example.com'' True False
            sample_category_dict sample_category_dict (length [post_c]) 1 [] [post_c] world0)
       = Inl AttributeError"
proof -
  have r: "post_record post_c"
    by (simp add: post_c_def field_ok_def obj_lookup_def)
  have g: "get_image_url bad_media_site post_c ''https://example.com'' s = (Inl AttributeError,
       s\<lparr>cursor := Suc (cursor s), sent := sent s @ [media_request ''https://example.com'' (JInt 9)]\<rparr>)"
    if "cursor s = 0" for s
    using that
    by (simp add: get_image_url_def post_c_def obj_lookup_def embedded_media_of_def
        has_source_url_def fetch_media_def http_get_def bad_media_site_def replay_def ok_def)
  have l: "py_get post_c ''link'' (JStr []) = Inr (JStr ''https://example.com/c'')"
    and t: "rendered post_c ''title'' = Inr (JStr ''C'')"
    and c: "rendered post_c ''content'' = Inr (JStr ''<p>c</p>'')"
    by (simp_all add: post_c_def rendered_def obj_lookup_def)
  have "fst (build_row bad_media_site ''https://example.com'' True False
            sample_category_dict sample_category_dict 1 1 post_c world0) = Inl AttributeError"
    unfolding build_row_def Let_def using l t c
    by (simp add: g show_ui_def world0_def)
  then obtain s1 where "build_row bad_media_site ''https://example.com'' True False
            sample_category_dict sample_category_dict 1 1 post_c world0 = (Inl AttributeError, s1)"
    by (cases "build_row bad_media_site ''https://example.com'' True False
            sample_category_dict sample_category_dict 1 1 post_c world0") auto
  then have "build_rows bad_media_site ''https://example.com'' True False
            sample_category_dict sample_category_dict (length [post_c]) 1 [] [post_c] world0
       = (Inl AttributeError, s1)"
    by simp
  then show ?thesis using r by simp
qed

section \<open>Properties of a run\<close>

lemma validate_ok:
  assumes "urlparse u = Inr p" and "scheme p \<noteq> []" and "netloc p \<noteq> []"
    and "srv (cursor s) (api_request p) = Response r" and "status_code r = 200"
  shows "validate_wordpress_site urlparse srv u s =
    (Inr (True, []), s\<lparr>cursor := Suc (cursor s), sent := sent s @ [api_request p]\<rparr>)"
  using assms by (simp add: validate_wordpress_site_def http_get_def)

text \<open>
  Claim C10. When the first page of posts comes back with status 200 and a total-pages
  header that \<^verbatim>\<open>int()\<close> rejects, \<^verbatim>\<open>fetch_all_pages\<close> does not return a list: the
  \<^verbatim>\<open>ValueError\<close> leaves it, is caught by the \<^verbatim>\<open>except Exception\<close> of \<^verbatim>\<open>main\<close>, and the
  run ends there with an error message and no rows.
\<close>

theorem bad_total_pages_header_aborts:
  assumes "urlparse u = Inr p" and "scheme p \<noteq> []" and "netloc p \<noteq> []"
    and "srv (cursor s) (api_request p) = Response r0" and "status_code r0 = 200"
    and "srv (Suc (cursor s)) (page_request (u @ ''/wp-json/wp/v2/posts'') (posts_params copt topt) 1)
           = Response r"
    and "status_code r = 200" and "body r = Inr (JArr items)"
    and "total_pages_header r = Some h" and "py_int h = Inl ValueError"
  shows "\<exists>s1 s2. validate_wordpress_site urlparse srv u s = (Inr (True, []), s1)
     \<and> fetch_all_published_posts srv u copt topt s1 = Some (Inl ValueError, s2)
     \<and> main urlparse srv u copt topt s = Some (Aborted ValueError, show_ui (StErrorExn ValueError) s2)
     \<and> sent s2 = sent s @ [api_request p,
          page_request (u @ ''/wp-json/wp/v2/posts'') (posts_params copt topt) 1]"
proof -
  let ?s1 = "s\<lparr>cursor := Suc (cursor s), sent := sent s @ [api_request p]\<rparr>"
  let ?rq = "page_request (u @ ''/wp-json/wp/v2/posts'') (posts_params copt topt) 1"
  let ?s2 = "?s1\<lparr>cursor := Suc (cursor ?s1), sent := sent ?s1 @ [?rq]\<rparr>"
  have v: "validate_wordpress_site urlparse srv u s = (Inr (True, []), ?s1)"
    using assms(1-5) by (rule validate_ok)
  have r: "srv (cursor ?s1) ?rq = Response r" using assms(6) by simp
  have tp: "total_pages_of r = Inl ValueError" using assms(9,10) by (simp add: total_pages_of_def)
  have it: "py_iter (JArr items) = Inr items" by simp
  have f: "fetch_all_published_posts srv u copt topt ?s1 = Some (Inl ValueError, ?s2)"
    unfolding fetch_all_published_posts_def fetch_all_pages_def
    using fetch_loop_bad_header [where srv=srv and s="?s1"
        and base_url="u @ ''/wp-json/wp/v2/posts''" and ps="posts_params copt topt" and page=1,
        OF r assms(7,8) it tp]
    by simp
  have m: "main urlparse srv u copt topt s = Some (Aborted ValueError, show_ui (StErrorExn ValueError) ?s2)"
    unfolding main_def using v f by simp
  show ?thesis using v f m by (intro exI [of _ ?s1] exI [of _ ?s2]) simp
qed

theorem bad_total_pages_header_aborts_witness:
  "py_int ''abc'' = Inl ValueError \<and>
   (\<exists>s1 s2. validate_wordpress_site sample_parse bad_header_site ''https://example.com'' world0
              = (Inr (True, []), s1)
      \<and> fetch_all_published_posts bad_header_site ''https://example.com'' True False s1
          = Some (Inl ValueError, s2)
      \<and> main sample_parse bad_header_site ''https://example.com'' True False world0
          = Some (Aborted ValueError, show_ui (StErrorExn ValueError) s2)
      \<and> sent s2 = sent world0 @ [api_request \<lparr>scheme = ''https'', netloc = ''example.com''\<rparr>,
          page_request (''https://example.com'' @ ''/wp-json/wp/v2/posts'') (posts_params True False) 1])"
proof -
  let ?p = "\<lparr>scheme = ''https'', netloc = ''example.com''\<rparr>"
  let ?ra = "\<lparr>status_code = 200, total_pages_header = None, body = Inr (JObj [])\<rparr>"
  let ?r = "\<lparr>status_code = 200, total_pages_header = Some ''abc'', body = Inr (JArr [post_a])\<rparr>"
  have a: "sample_parse ''https://example.com'' = Inr ?p" by (simp add: sample_parse_def)
  have b: "scheme ?p \<noteq> []" "netloc ?p \<noteq> []" by simp_all
  have c: "bad_header_site (cursor world0) (api_request ?p) = Response ?ra"
    by (simp add: bad_header_site_def replay_def ok_def world0_def)
  have d: "bad_header_site (Suc (cursor world0))
      (page_request (''https://example.com'' @ ''/wp-json/wp/v2/posts'') (posts_params True False) 1) = Response ?r"
    by (simp add: bad_header_site_def replay_def ok_def world0_def)
  have e: "status_code ?ra = 200" "status_code ?r = 200" "body ?r = Inr (JArr [post_a])"
    "total_pages_header ?r = Some ''abc''" by simp_all
  from bad_total_pages_header_aborts [where urlparse=sample_parse and srv=bad_header_site
        and s=world0 and copt=True and topt=False, OF a b c e(1) d e(2) e(3) e(4) py_int_abc]
  show ?thesis using py_int_abc by blast
qed

subsection \<open>What a run depends on\<close>

text \<open>
  Nothing a function of the program does depends on what was sent or shown before: from
  two states at the same position in the sequence of answers it gives the same result (or
  does not end in both) and stops at the same position.
\<close>

lemma fetch_loop_indep_aux:
  assumes a: "fetch_loop srv0 base_url0 ps0 item_name0 all_items0 page0 s0 = Some y0"
  shows "\<forall>s'. cursor s' = cursor s0 \<longrightarrow>
           (\<exists>t'. fetch_loop srv0 base_url0 ps0 item_name0 all_items0 page0 s' = Some (fst y0, t')
                \<and> cursor t' = cursor (snd y0))"
proof (rule fetch_loop.raw_induct [where P = "\<lambda>srv base_url ps item_name all_items page s y.
           \<forall>s'. cursor s' = cursor s \<longrightarrow>
           (\<exists>t'. fetch_loop srv base_url ps item_name all_items page s' = Some (fst y, t')
                \<and> cursor t' = cursor (snd y))", OF _ a], goal_cases)
  case (1 f srv base_url ps item_name all_items page s y)
  show ?case
  proof (intro allI impI)
    fix s' :: world
    assume c: "cursor s' = cursor s"
    let ?rq = "page_request base_url ps page"
    let ?t = "s\<lparr>cursor := Suc (cursor s), sent := sent s @ [?rq]\<rparr>"
    let ?t' = "s'\<lparr>cursor := Suc (cursor s'), sent := sent s' @ [?rq]\<rparr>"
    have b: "(case (srv (cursor s) ?rq, ?t) of
        (Response r, s1) \<Rightarrow>
          if status_code r = 200
          then case body r of
               Inl e \<Rightarrow> Some (Inr all_items,
                   show_ui (StError (''An error occurred while fetching '' @ item_name @ '': '' @ e)) s1)
             | Inr j \<Rightarrow>
                 case py_iter j of Inl x \<Rightarrow> Some (Inl x, s1)
                 | Inr items \<Rightarrow>
                     case total_pages_of r of Inl x \<Rightarrow> Some (Inl x, s1)
                     | Inr total_pages \<Rightarrow>
                         let s2 = show_ui (StatusText (''Fetching '' @ item_name @ '': Page ''
                                      @ int_str page @ ''/'' @ int_str total_pages)) s1
                         in if total_pages \<le> page
                            then Some (Inr (all_items @ items), s2)
                            else f srv base_url (dict_set ps ''page'' (JInt page))
                                  item_name (all_items @ items) (page + 1) s2
          else Some (Inr all_items,
               show_ui (StError (''Error '' @ int_str (status_code r) @ '' while fetching ''
                   @ item_name @ '' page '' @ int_str page)) s1)
      | (RequestException e, s1) \<Rightarrow>
          Some (Inr all_items,
            show_ui (StError (''An error occurred while fetching '' @ item_name @ '': '' @ e)) s1))
      = Some y"
      using 1(2) unfolding http_get_def .
    show "\<exists>t'. fetch_loop srv base_url ps item_name all_items page s' = Some (fst y, t')
                \<and> cursor t' = cursor (snd y)"
    proof (cases "srv (cursor s) ?rq")
      case (RequestException e)
      with b have y: "y = (Inr all_items,
            show_ui (StError (''An error occurred while fetching '' @ item_name @ '': '' @ e)) ?t)"
        by simp
      from RequestException c have "srv (cursor s') ?rq = RequestException e" by simp
      from fetch_loop_raises [where srv=srv, OF this] show ?thesis
        using y c by (simp add: show_ui_def)
    next
      case (Response r)
      from Response c have r': "srv (cursor s') ?rq = Response r" by simp
      show ?thesis
      proof (cases "status_code r = 200")
        case False
        with b Response have y: "y = (Inr all_items,
               show_ui (StError (''Error '' @ int_str (status_code r) @ '' while fetching ''
                   @ item_name @ '' page '' @ int_str page)) ?t)"
          by simp
        from fetch_loop_status [where srv=srv, OF r' False] show ?thesis
          using y c by (simp add: show_ui_def)
      next
        case True
        show ?thesis
        proof (cases "body r")
          case (Inl e)
          with b Response True have y: "y = (Inr all_items,
             show_ui (StError (''An error occurred while fetching '' @ item_name @ '': '' @ e)) ?t)"
            by simp
          have "fetch_loop srv base_url ps item_name all_items page s' = Some (Inr all_items,
             show_ui (StError (''An error occurred while fetching '' @ item_name @ '': '' @ e)) ?t')"
            using r' True Inl by (subst fetch_loop.simps) (simp add: http_get_def)
          then show ?thesis using y c by (simp add: show_ui_def)
        next
          case (Inr j)
          show ?thesis
          proof (cases "py_iter j")
            case (Inl x)
            with b Response True Inr have y: "y = (Inl x, ?t)" by simp
            have "fetch_loop srv base_url ps item_name all_items page s' = Some (Inl x, ?t')"
              using r' True Inr Inl by (subst fetch_loop.simps) (simp add: http_get_def)
            then show ?thesis using y c by simp
          next
            case items: (Inr items)
            show ?thesis
            proof (cases "total_pages_of r")
              case (Inl x)
              with b Response True Inr items have y: "y = (Inl x, ?t)" by simp
              from fetch_loop_bad_header [where srv=srv, OF r' True Inr items Inl]
              show ?thesis using y c by simp
            next
              case tp: (Inr total_pages)
              let ?m = "StatusText (''Fetching '' @ item_name @ '': Page ''
                                      @ int_str page @ ''/'' @ int_str total_pages)"
              show ?thesis
              proof (cases "total_pages \<le> page")
                case le: True
                with b Response True Inr items tp have y: "y = (Inr (all_items @ items), show_ui ?m ?t)"
                  by (simp add: Let_def)
                from fetch_loop_last [where srv=srv, OF r' True Inr items tp le]
                show ?thesis using y c by (simp add: show_ui_def)
              next
                case gt: False
                with b Response True Inr items tp
                have "f srv base_url (dict_set ps ''page'' (JInt page)) item_name
                        (all_items @ items) (page + 1) (show_ui ?m ?t) = Some y"
                  by (simp add: Let_def)
                from 1(1) [OF this] have ih: "\<forall>s'. cursor s' = cursor (show_ui ?m ?t) \<longrightarrow>
                  (\<exists>t'. fetch_loop srv base_url (dict_set ps ''page'' (JInt page)) item_name
                        (all_items @ items) (page + 1) s' = Some (fst y, t')
                      \<and> cursor t' = cursor (snd y))" .
                have "cursor (show_ui ?m ?t') = cursor (show_ui ?m ?t)"
                  using c by (simp add: show_ui_def)
                with ih obtain t' where
                  "fetch_loop srv base_url (dict_set ps ''page'' (JInt page)) item_name
                        (all_items @ items) (page + 1) (show_ui ?m ?t') = Some (fst y, t')"
                  "cursor t' = cursor (snd y)" by blast
                moreover from gt have "page < total_pages" by simp
                from fetch_loop_next [where srv=srv, OF r' True Inr items tp this]
                have "fetch_loop srv base_url ps item_name all_items page s' =
                    fetch_loop srv base_url (dict_set ps ''page'' (JInt page)) item_name
                        (all_items @ items) (page + 1) (show_ui ?m ?t')" .
                ultimately show ?thesis by simp
              qed
            qed
          qed
        qed
      qed
    qed
  qed
qed

lemma agree_cases:
  assumes "rel_option (\<lambda>a b. fst a = fst b \<and> cursor (snd a) = cursor (snd b)) x x'"
  shows "(x = None \<and> x' = None)
       \<or> (\<exists>r t t'. x = Some (r, t) \<and> x' = Some (r, t') \<and> cursor t = cursor t')"
  using assms by (cases x; cases x') auto

lemma fetch_loop_indep:
  assumes c: "cursor s = cursor s'"
  shows "rel_option (\<lambda>a b. fst a = fst b \<and> cursor (snd a) = cursor (snd b))
           (fetch_loop srv base_url ps item_name all_items page s)
           (fetch_loop srv base_url ps item_name all_items page s')"
proof (cases "fetch_loop srv base_url ps item_name all_items page s")
  case None
  show ?thesis
  proof (cases "fetch_loop srv base_url ps item_name all_items page s'")
    case n: None
    with None show ?thesis by simp
  next
    case (Some y')
    from fetch_loop_indep_aux [OF Some] c None show ?thesis by auto
  qed
next
  case (Some y)
  from fetch_loop_indep_aux [OF Some] c obtain t' where
    "fetch_loop srv base_url ps item_name all_items page s' = Some (fst y, t')"
    "cursor t' = cursor (snd y)" by auto
  with Some show ?thesis by simp
qed

lemma fetch_all_named_indep:
  assumes c: "cursor s = cursor s'"
  shows "rel_option (\<lambda>a b. fst a = fst b \<and> cursor (snd a) = cursor (snd b))
           (fetch_all_named resource srv base_site_url s)
           (fetch_all_named resource srv base_site_url s')"
proof -
  from agree_cases [OF fetch_loop_indep [OF c]]
  have "(fetch_all_pages srv (base_site_url @ ''/wp-json/wp/v2/'' @ resource)
             [(''per_page'', JInt 100)] resource s = None
       \<and> fetch_all_pages srv (base_site_url @ ''/wp-json/wp/v2/'' @ resource)
             [(''per_page'', JInt 100)] resource s' = None)
     \<or> (\<exists>r t t'. fetch_all_pages srv (base_site_url @ ''/wp-json/wp/v2/'' @ resource)
             [(''per_page'', JInt 100)] resource s = Some (r, t)
         \<and> fetch_all_pages srv (base_site_url @ ''/wp-json/wp/v2/'' @ resource)
             [(''per_page'', JInt 100)] resource s' = Some (r, t') \<and> cursor t = cursor t')"
    unfolding fetch_all_pages_def .
  then show ?thesis
    unfolding fetch_all_named_def
    by (auto simp add: show_ui_def split: sum.splits)
qed

lemma fetch_media_indep:
  assumes "cursor s = cursor s'"
  shows "fst (fetch_media srv base_site_url media_id s) = fst (fetch_media srv base_site_url media_id s')
     \<and> cursor (snd (fetch_media srv base_site_url media_id s))
         = cursor (snd (fetch_media srv base_site_url media_id s'))"
  using assms
  by (simp add: fetch_media_def http_get_def show_ui_def split: outcome.splits sum.splits)

lemma get_image_url_indep:
  assumes "cursor s = cursor s'"
  shows "fst (get_image_url srv post base_site_url s) = fst (get_image_url srv post base_site_url s')
     \<and> cursor (snd (get_image_url srv post base_site_url s))
         = cursor (snd (get_image_url srv post base_site_url s'))"
  using assms fetch_media_indep [OF assms]
  by (simp add: get_image_url_def split: sum.splits bool.splits)

lemma build_row_indep:
  assumes c: "cursor s = cursor s'"
  shows "fst (build_row srv base_site_url copt topt cd td total_posts index post s)
       = fst (build_row srv base_site_url copt topt cd td total_posts index post s')
     \<and> cursor (snd (build_row srv base_site_url copt topt cd td total_posts index post s))
       = cursor (snd (build_row srv base_site_url copt topt cd td total_posts index post s'))"
proof -
  define m where "m = StatusText (''Processing article '' @ nat_str index @ ''/''
                    @ nat_str total_posts)"
  define s1 where "s1 = show_ui (Progress index total_posts) (show_ui m s)"
  define s1' where "s1' = show_ui (Progress index total_posts) (show_ui m s')"
  have c1: "cursor s1 = cursor s1'" using c by (simp add: s1_def s1'_def show_ui_def)
  obtain r t where g: "get_image_url srv post base_site_url s1 = (r, t)"
    by (cases "get_image_url srv post base_site_url s1") auto
  obtain r' t' where g': "get_image_url srv post base_site_url s1' = (r', t')"
    by (cases "get_image_url srv post base_site_url s1'") auto
  from get_image_url_indep [OF c1, of srv post base_site_url] g g'
  have e: "r' = r" "cursor t = cursor t'" by simp_all
  show ?thesis
    unfolding build_row_def Let_def m_def [symmetric] s1_def [symmetric] s1'_def [symmetric]
    using c1 e by (simp add: g g' split: sum.splits)
qed

lemma build_rows_indep:
  assumes "cursor s = cursor s'"
  shows "fst (build_rows srv base_site_url copt topt cd td total_posts index acc posts s)
       = fst (build_rows srv base_site_url copt topt cd td total_posts index acc posts s')
     \<and> cursor (snd (build_rows srv base_site_url copt topt cd td total_posts index acc posts s))
       = cursor (snd (build_rows srv base_site_url copt topt cd td total_posts index acc posts s'))"
  using assms
proof (induction posts arbitrary: index acc s s')
  case Nil
  then show ?case by simp
next
  case (Cons post posts)
  obtain r t where b: "build_row srv base_site_url copt topt cd td total_posts index post s = (r, t)"
    by (cases "build_row srv base_site_url copt topt cd td total_posts index post s") auto
  obtain r' t' where b': "build_row srv base_site_url copt topt cd td total_posts index post s' = (r', t')"
    by (cases "build_row srv base_site_url copt topt cd td total_posts index post s'") auto
  from build_row_indep [OF Cons.prems, of srv base_site_url copt topt cd td total_posts index post] b b'
  have e: "r' = r" "cursor t = cursor t'" by simp_all
  show ?case
  proof (cases r)
    case (Inl x)
    then show ?thesis using b b' e by simp
  next
    case (Inr row)
    from Cons.IH [OF e(2)] show ?thesis using b b' e Inr by simp
  qed
qed

lemma validate_indep:
  assumes "cursor s = cursor s'"
  shows "fst (validate_wordpress_site urlparse srv u s) = fst (validate_wordpress_site urlparse srv u s')
     \<and> cursor (snd (validate_wordpress_site urlparse srv u s))
         = cursor (snd (validate_wordpress_site urlparse srv u s'))"
  using assms
  by (simp add: validate_wordpress_site_def http_get_def split: sum.splits outcome.splits)

lemma optional_dict_indep:
  assumes "cursor s = cursor s'"
  shows "rel_option (\<lambda>a b. fst a = fst b \<and> cursor (snd a) = cursor (snd b))
           (if option then fetch_all_named resource srv base_site_url s else Some (Inr Map.empty, s))
           (if option then fetch_all_named resource srv base_site_url s' else Some (Inr Map.empty, s'))"
  using assms fetch_all_named_indep [OF assms] by simp

lemma process_posts_indep:
  assumes c: "cursor s = cursor s'"
  shows "rel_option (\<lambda>a b. fst a = fst b \<and> cursor (snd a) = cursor (snd b))
           (process_posts srv base_site_url copt topt posts s)
           (process_posts srv base_site_url copt topt posts s')"
proof -
  define m where "m = StSuccess (''Total articles fetched: '' @ nat_str (length posts))"
  define A where "A = (if copt then fetch_all_named ''categories'' srv base_site_url (show_ui m s)
                       else Some (Inr Map.empty, show_ui m s))"
  define A' where "A' = (if copt then fetch_all_named ''categories'' srv base_site_url (show_ui m s')
                       else Some (Inr Map.empty, show_ui m s'))"
  have c1: "cursor (show_ui m s) = cursor (show_ui m s')" using c by (simp add: show_ui_def)
  have p: "process_posts srv base_site_url copt topt posts s =
     (case A of
           None \<Rightarrow> None
         | Some (Inl e, s2) \<Rightarrow> Some (Aborted e, show_ui (StErrorExn e) s2)
         | Some (Inr category_dict, s2) \<Rightarrow>
             (case (if topt then fetch_all_named ''tags'' srv base_site_url s2
                    else Some (Inr Map.empty, s2)) of
                None \<Rightarrow> None
              | Some (Inl e, s3) \<Rightarrow> Some (Aborted e, show_ui (StErrorExn e) s3)
              | Some (Inr tag_dict, s3) \<Rightarrow>
                  (case build_rows srv base_site_url copt topt
                          category_dict tag_dict (length posts) 1 []
                          posts (show_ui (Progress 0 (length posts)) s3) of
                     (Inl e, s4) \<Rightarrow> Some (Aborted e, show_ui (StErrorExn e) s4)
                   | (Inr csv_data, s4) \<Rightarrow>
                       Some (Completed csv_data,
                         show_ui (DownloadButton csv_data)
                           (show_ui (Dataframe csv_data)
                              (show_ui (StatusText ''Processing completed.'')
                                 (show_ui ProgressEmpty s4)))))))"
    unfolding process_posts_def Let_def fetch_all_categories_def fetch_all_tags_def A_def m_def ..
  have p': "process_posts srv base_site_url copt topt posts s' =
     (case A' of
           None \<Rightarrow> None
         | Some (Inl e, s2) \<Rightarrow> Some (Aborted e, show_ui (StErrorExn e) s2)
         | Some (Inr category_dict, s2) \<Rightarrow>
             (case (if topt then fetch_all_named ''tags'' srv base_site_url s2
                    else Some (Inr Map.empty, s2)) of
                None \<Rightarrow> None
              | Some (Inl e, s3) \<Rightarrow> Some (Aborted e, show_ui (StErrorExn e) s3)
              | Some (Inr tag_dict, s3) \<Rightarrow>
                  (case build_rows srv base_site_url copt topt
                          category_dict tag_dict (length posts) 1 []
                          posts (show_ui (Progress 0 (length posts)) s3) of
                     (Inl e, s4) \<Rightarrow> Some (Aborted e, show_ui (StErrorExn e) s4)
                   | (Inr csv_data, s4) \<Rightarrow>
                       Some (Completed csv_data,
                         show_ui (DownloadButton csv_data)
                           (show_ui (Dataframe csv_data)
                              (show_ui (StatusText ''Processing completed.'')
                                 (show_ui ProgressEmpty s4)))))))"
    unfolding process_posts_def Let_def fetch_all_categories_def fetch_all_tags_def A'_def m_def ..
  from agree_cases [OF optional_dict_indep [OF c1, of copt "''categories''" srv base_site_url]]
  have "(A = None \<and> A' = None) \<or> (\<exists>r t t'. A = Some (r, t) \<and> A' = Some (r, t') \<and> cursor t = cursor t')"
    unfolding A_def A'_def .
  then show ?thesis
  proof
    assume "A = None \<and> A' = None"
    then show ?thesis unfolding p p' by simp
  next
    assume "\<exists>r t t'. A = Some (r, t) \<and> A' = Some (r, t') \<and> cursor t = cursor t'"
    then obtain r t t' where a: "A = Some (r, t)" "A' = Some (r, t')" and ct: "cursor t = cursor t'"
      by blast
    show ?thesis
    proof (cases r)
      case (Inl e)
      then show ?thesis unfolding p p' using a ct by (simp add: show_ui_def)
    next
      case (Inr category_dict)
      define B where "B = (if topt then fetch_all_named ''tags'' srv base_site_url t
                       else Some (Inr Map.empty, t))"
      define B' where "B' = (if topt then fetch_all_named ''tags'' srv base_site_url t'
                       else Some (Inr Map.empty, t'))"
      from agree_cases [OF optional_dict_indep [OF ct, of topt "''tags''" srv base_site_url]]
      have "(B = None \<and> B' = None)
          \<or> (\<exists>r2 u u'. B = Some (r2, u) \<and> B' = Some (r2, u') \<and> cursor u = cursor u')"
        unfolding B_def B'_def .
      then show ?thesis
      proof
        assume "B = None \<and> B' = None"
        then show ?thesis unfolding p p' using a Inr by (simp add: B_def B'_def)
      next
        assume "\<exists>r2 u u'. B = Some (r2, u) \<and> B' = Some (r2, u') \<and> cursor u = cursor u'"
        then obtain r2 u u' where b: "B = Some (r2, u)" "B' = Some (r2, u')"
          and cu: "cursor u = cursor u'" by blast
        show ?thesis
        proof (cases r2)
          case (Inl e)
          then show ?thesis unfolding p p' using a Inr b cu
            by (simp add: B_def [symmetric] B'_def [symmetric] show_ui_def)
        next
          case tag: (Inr tag_dict)
          let ?v = "show_ui (Progress 0 (length posts)) u"
          let ?v' = "show_ui (Progress 0 (length posts)) u'"
          have cv: "cursor ?v = cursor ?v'" using cu by (simp add: show_ui_def)
          obtain q w where r: "build_rows srv base_site_url copt topt category_dict tag_dict
              (length posts) 1 [] posts ?v = (q, w)"
            by (cases "build_rows srv base_site_url copt topt category_dict tag_dict
              (length posts) 1 [] posts ?v") auto
          obtain q' w' where r': "build_rows srv base_site_url copt topt category_dict tag_dict
              (length posts) 1 [] posts ?v' = (q', w')"
            by (cases "build_rows srv base_site_url copt topt category_dict tag_dict
              (length posts) 1 [] posts ?v'") auto
          from build_rows_indep [OF cv, of srv base_site_url copt topt category_dict tag_dict
              "length posts" 1 "[]" posts] r r'
          have e: "q' = q" "cursor w = cursor w'" by simp_all
          show ?thesis unfolding p p' using a Inr b tag r r' e
            by (simp add: B_def [symmetric] B'_def [symmetric] show_ui_def split: sum.splits)
        qed
      qed
    qed
  qed
qed

lemma main_indep:
  assumes c: "cursor s = cursor s'"
  shows "rel_option (\<lambda>a b. fst a = fst b \<and> cursor (snd a) = cursor (snd b))
           (main urlparse srv u copt topt s) (main urlparse srv u copt topt s')"
proof -
  obtain v t where v: "validate_wordpress_site urlparse srv u s = (v, t)"
    by (cases "validate_wordpress_site urlparse srv u s") auto
  obtain v' t' where v': "validate_wordpress_site urlparse srv u s' = (v', t')"
    by (cases "validate_wordpress_site urlparse srv u s'") auto
  from validate_indep [OF c, of urlparse srv u] v v'
  have e: "v' = v" "cursor t = cursor t'" by simp_all
  show ?thesis
  proof (cases v)
    case (Inl x)
    then show ?thesis using v v' e by (simp add: main_def)
  next
    case (Inr ok_msg)
    obtain is_valid msg where om: "ok_msg = (is_valid, msg)" by (cases ok_msg) auto
    show ?thesis
    proof (cases is_valid)
      case False
      then show ?thesis using v v' e Inr om by (simp add: main_def show_ui_def)
    next
      case True
      from agree_cases [OF fetch_loop_indep [OF e(2)]]
      have "(fetch_all_published_posts srv u copt topt t = None
           \<and> fetch_all_published_posts srv u copt topt t' = None)
         \<or> (\<exists>r w w'. fetch_all_published_posts srv u copt topt t = Some (r, w)
             \<and> fetch_all_published_posts srv u copt topt t' = Some (r, w') \<and> cursor w = cursor w')"
        unfolding fetch_all_published_posts_def fetch_all_pages_def .
      then show ?thesis
      proof
        assume "fetch_all_published_posts srv u copt topt t = None
           \<and> fetch_all_published_posts srv u copt topt t' = None"
        then show ?thesis using v v' e Inr om True by (simp add: main_def)
      next
        assume "\<exists>r w w'. fetch_all_published_posts srv u copt topt t = Some (r, w)
             \<and> fetch_all_published_posts srv u copt topt t' = Some (r, w') \<and> cursor w = cursor w'"
        then obtain r w w' where f: "fetch_all_published_posts srv u copt topt t = Some (r, w)"
          "fetch_all_published_posts srv u copt topt t' = Some (r, w')" and cw: "cursor w = cursor w'"
          by blast
        show ?thesis
        proof (cases r)
          case (Inl x)
          then show ?thesis using v v' e Inr om True f cw by (simp add: main_def show_ui_def)
        next
          case posts: (Inr posts)
          show ?thesis
          proof (cases "posts = []")
            case nil: True
            then show ?thesis using v v' e Inr om True f cw posts
              by (simp add: main_def show_ui_def)
          next
            case False
            then show ?thesis
              using v v' e Inr om True f posts process_posts_indep [OF cw]
              by (simp add: main_def)
          qed
        qed
      qed
    qed
  qed
qed

text \<open>
  A whole run on the sample site: two pages of posts, the categories, one media request.
\<close>

lemma sample_run:
  "map_option fst (main sample_parse demo_site ''https://example.com'' True False world0) =
   Some (Completed
    [ [(''url'', JStr ''https://example.com/a''), (''title'', JStr ''A''),
      (''content'', JStr ''<p>a</p>''),
      (''image_url'', JStr ''https://example.com/a.png''),
      (''categories'', JStr ''News, Unknown'')],
     [(''url'', JStr ''https://example.com/b''), (''title'', JStr ''B''),
      (''content'', JStr ''<p>b</p>''), (''image_url'', JStr []),
      (''categories'', JStr [])],
     [(''url'', JStr ''https://example.com/c''), (''title'', JStr ''C''),
      (''content'', JStr ''<p>c</p>''),
      (''image_url'', JStr ''https://example.com/c.png''),
      (''categories'', JStr ''Tech'')]])"
  by code_simp

text \<open>
  Claim C9. Two runs against the same sequence of answers, with the same URL and options,
  end the same way whatever the state of the user interface and of the request log: both
  do not terminate, or both end with the same result, which for a completed run is the
  same rows in the same order.
\<close>

theorem main_deterministic:
  assumes "cursor s = cursor s'"
  shows "map_option fst (main urlparse srv u copt topt s)
       = map_option fst (main urlparse srv u copt topt s')"
  using agree_cases [OF main_indep [OF assms, of urlparse srv u copt topt]] by auto

theorem main_deterministic_witness:
  "cursor world0 = cursor world_used
   \<and> map_option fst (main sample_parse demo_site ''https://example.com'' True False world_used)
     = map_option fst (main sample_parse demo_site ''https://example.com'' True False world0)
   \<and> map_option fst (main sample_parse demo_site ''https://example.com'' True False world_used)
     \<noteq> None"
proof -
  have c: "cursor world0 = cursor world_used" by (simp add: world0_def world_used_def)
  from main_deterministic [OF c, of sample_parse demo_site "''https://example.com''" True False]
  have e: "map_option fst (main sample_parse demo_site ''https://example.com'' True False world_used)
     = map_option fst (main sample_parse demo_site ''https://example.com'' True False world0)"
    by simp
  have "map_option fst (main sample_parse demo_site ''https://example.com'' True False world_used)
     \<noteq> None"
    unfolding e sample_run by simp
  with c e show ?thesis by (intro conjI)
qed

end
